theory Spec2Isabelle
  imports Complex_Main
begin

section \<open>Python values used by the cost calculator\<close>

text \<open>
  The development embeds \<^verbatim>\<open>scripts/job_management/saga_cost_calculator.py\<close>.
  Conventions of the embedding:
  \<^item> a Python \<^verbatim>\<open>str\<close> is a \<open>string\<close>; one \<open>char\<close> stands for one code point, so the
    model covers texts whose code points are below 256;
  \<^item> a Python \<^verbatim>\<open>int\<close> is an \<open>int\<close> (unbounded); the length limit that recent CPython
    versions put on int/str conversion is outside the model;
  \<^item> a Python \<^verbatim>\<open>float\<close> is a \<open>real\<close>: arithmetic is exact, binary rounding and overflow
    are outside the model;
  \<^item> \<^verbatim>\<open>None\<close> is \<open>None\<close>, a raised exception is \<open>Inl\<close> of an \<open>error\<close>;
  \<^item> a \<^verbatim>\<open>dict\<close> from strings to strings is a map \<open>string \<rightharpoonup> string\<close>.
\<close>

datatype error =
    IllegalHash string string  \<comment> \<open>\<^verbatim>\<open>ValueError("Illegal '#' in value for option ...")\<close>\<close>
  | InvalidIntLiteral string   \<comment> \<open>the \<^verbatim>\<open>ValueError\<close> raised by \<^verbatim>\<open>int(s)\<close>\<close>
  | TimeUnspecified            \<comment> \<open>\<^verbatim>\<open>ValueError("... Time cannot be unspecified.")\<close>\<close>
  | MemoryUnspecified          \<comment> \<open>\<^verbatim>\<open>ValueError("... Memory cannot be unspecified.")\<close>\<close>

subsection \<open>Character classes\<close>

text \<open>\<^verbatim>\<open>str.isspace\<close>, which is also the class \<^verbatim>\<open>\s\<close> of \<^verbatim>\<open>re\<close> on \<^verbatim>\<open>str\<close> patterns.\<close>

definition isspace :: "char \<Rightarrow> bool" where
  "isspace c \<longleftrightarrow> c \<in> set [CHR 0x09, CHR 0x0A, CHR 0x0B, CHR 0x0C, CHR 0x0D,
      CHR 0x1C, CHR 0x1D, CHR 0x1E, CHR 0x1F, CHR 0x20, CHR 0x85, CHR 0xA0]"

text \<open>The class \<^verbatim>\<open>\d\<close>: the decimal digits.\<close>

definition isdecimal :: "char \<Rightarrow> bool" where
  "isdecimal c \<longleftrightarrow> c \<in> set ''0123456789''"

definition digit_value :: "char \<Rightarrow> int" where
  "digit_value c = of_char c - 48"

definition decimal_value :: "string \<Rightarrow> int" where
  "decimal_value ds = foldl (\<lambda>a c. 10 * a + digit_value c) 0 ds"

subsection \<open>String methods\<close>

text \<open>\<^verbatim>\<open>s.strip()\<close>\<close>

definition strip :: "string \<Rightarrow> string" where
  "strip s = rev (dropWhile isspace (rev (dropWhile isspace s)))"

text \<open>\<^verbatim>\<open>s.split(c)\<close> for a one-character separator: never the empty list.\<close>

fun py_split :: "char \<Rightarrow> string \<Rightarrow> string list" where
  "py_split c [] = [[]]"
| "py_split c (x # xs) =
     (if x = c then [] # py_split c xs
      else (case py_split c xs of [] \<Rightarrow> [[x]] | f # fs \<Rightarrow> (x # f) # fs))"

text \<open>\<^verbatim>\<open>s.split(c, 1)\<close>: one field when \<open>c\<close> does not occur, else the text before and
  after its first occurrence.\<close>

fun py_split1 :: "char \<Rightarrow> string \<Rightarrow> string list" where
  "py_split1 c s =
     (if c \<in> set s then [takeWhile (\<lambda>x. x \<noteq> c) s, tl (dropWhile (\<lambda>x. x \<noteq> c) s)] else [s])"

subsection \<open>\<^verbatim>\<open>int(s)\<close> on a string\<close>

text \<open>
  \<^verbatim>\<open>int\<close> accepts surrounding whitespace, one sign, and decimal digits that may be
  separated by single underscores; anything else raises \<^verbatim>\<open>ValueError\<close> (\<open>None\<close> here,
  turned into an error or a default by each caller as the source does).
  The whitespace that \<^verbatim>\<open>int\<close> skips is not the class of \<^verbatim>\<open>str.isspace\<close>: the characters
  below 127 are left as they are and only tab, line feed, vertical tab, form feed,
  carriage return and space are skipped, so the separators 0x1C to 0x1F are rejected;
  the characters above are mapped to a space when \<^verbatim>\<open>str.isspace\<close> holds (0x85 and 0xA0).
  \<open>int_body\<close> returns the digits of \<^verbatim>\<open>digit (_? digit)*\<close>.
\<close>

definition int_space :: "char \<Rightarrow> bool" where
  "int_space c \<longleftrightarrow> c \<in> set [CHR 0x09, CHR 0x0A, CHR 0x0B, CHR 0x0C, CHR 0x0D,
      CHR 0x20, CHR 0x85, CHR 0xA0]"

definition int_strip :: "string \<Rightarrow> string" where
  "int_strip s = rev (dropWhile int_space (rev (dropWhile int_space s)))"

fun int_body :: "string \<Rightarrow> string option" where
  "int_body [] = None"
| "int_body [c] = (if isdecimal c then Some [c] else None)"
| "int_body (c # d # cs) =
     (if \<not> isdecimal c then None
      else if d = CHR ''_'' then map_option ((#) c) (int_body cs)
      else map_option ((#) c) (int_body (d # cs)))"

definition py_int :: "string \<Rightarrow> int option" where
  "py_int s =
     (case int_strip s of
        [] \<Rightarrow> None
      | c # cs \<Rightarrow>
          if c = CHR ''-'' then map_option (\<lambda>ds. - decimal_value ds) (int_body cs)
          else if c = CHR ''+'' then map_option decimal_value (int_body cs)
          else map_option decimal_value (int_body (c # cs)))"

text \<open>
  \<^verbatim>\<open>round(x, nd)\<close> on a float: the nearest multiple of \<open>10\<^sup>-\<^sup>n\<^sup>d\<close>, ties to the even one.
\<close>

definition py_round :: "real \<Rightarrow> nat \<Rightarrow> real" where
  "py_round x nd =
     (let y = x * 10 ^ nd; f = \<lfloor>y\<rfloor>; r = y - of_int f
      in of_int (if r < 1 / 2 then f else if 1 / 2 < r then f + 1
                 else if even f then f else f + 1) / 10 ^ nd)"

section \<open>Normalisation: \<^verbatim>\<open>parse_slurmargs\<close> and its local parsers\<close>

subsection \<open>\<^verbatim>\<open>parse_argument_to_int\<close>\<close>

definition parse_argument_to_int :: "string option \<Rightarrow> int option" where
  "parse_argument_to_int argument =
     (case argument of
        None \<Rightarrow> None
      | Some a \<Rightarrow> if a = [] then None else py_int a)"

subsection \<open>\<^verbatim>\<open>parse_time_to_hours\<close>\<close>

text \<open>
  The four patterns are matched with \<^verbatim>\<open>re.fullmatch\<close>. Their groups are \<^verbatim>\<open>\d+\<close> and
  \<^verbatim>\<open>\d{1,2}\<close>, which contain neither \<^verbatim>\<open>-\<close> nor \<^verbatim>\<open>:\<close>, so a string matches exactly when
  splitting it at the separators gives the right number of fields and every field is in
  its class.
\<close>

definition digits :: "string \<Rightarrow> bool" where  \<comment> \<open>\<^verbatim>\<open>\d+\<close>\<close>
  "digits s \<longleftrightarrow> s \<noteq> [] \<and> list_all isdecimal s"

definition digits12 :: "string \<Rightarrow> bool" where  \<comment> \<open>\<^verbatim>\<open>\d{1,2}\<close>\<close>
  "digits12 s \<longleftrightarrow> digits s \<and> length s \<le> 2"

text \<open>\<^verbatim>\<open>(\d+)-(\d{1,2}):(\d{1,2}):(\d{1,2})\<close>\<close>

definition fullmatch_dhhmmss :: "string \<Rightarrow> (string \<times> string \<times> string \<times> string) option" where
  "fullmatch_dhhmmss s =
     (case py_split (CHR ''-'') s of
        [d, r] \<Rightarrow>
          (case py_split (CHR '':'') r of
             [h, m, sec] \<Rightarrow>
               if digits d \<and> digits12 h \<and> digits12 m \<and> digits12 sec
               then Some (d, h, m, sec) else None
           | _ \<Rightarrow> None)
      | _ \<Rightarrow> None)"

text \<open>\<^verbatim>\<open>(\d+):(\d{1,2}):(\d{1,2})\<close>\<close>

definition fullmatch_hhmmss :: "string \<Rightarrow> (string \<times> string \<times> string) option" where
  "fullmatch_hhmmss s =
     (case py_split (CHR '':'') s of
        [h, m, sec] \<Rightarrow>
          if digits h \<and> digits12 m \<and> digits12 sec then Some (h, m, sec) else None
      | _ \<Rightarrow> None)"

text \<open>\<^verbatim>\<open>(\d+):(\d{1,2})\<close>\<close>

definition fullmatch_mmss :: "string \<Rightarrow> (string \<times> string) option" where
  "fullmatch_mmss s =
     (case py_split (CHR '':'') s of
        [m, sec] \<Rightarrow> if digits m \<and> digits12 sec then Some (m, sec) else None
      | _ \<Rightarrow> None)"

text \<open>
  \<^verbatim>\<open>int\<close> of a group matched by \<^verbatim>\<open>\d+\<close> is its decimal value and cannot raise
  (see \<open>py_int_digits\<close> below).
\<close>

definition parse_time_to_hours :: "string option \<Rightarrow> real option" where
  "parse_time_to_hours time_argument =
     (case time_argument of
        None \<Rightarrow> None
      | Some a \<Rightarrow>
          if a = [] then None
          else
            let timestring = strip a in
            (case fullmatch_dhhmmss timestring of
               Some (d, h, m, s) \<Rightarrow>
                 Some (of_int (decimal_value d * 24 + decimal_value h)
                       + of_int (decimal_value m) / 60 + of_int (decimal_value s) / 3600)
             | None \<Rightarrow>
            (case fullmatch_hhmmss timestring of
               Some (h, m, s) \<Rightarrow>
                 Some (of_int (decimal_value h)
                       + of_int (decimal_value m) / 60 + of_int (decimal_value s) / 3600)
             | None \<Rightarrow>
            (case fullmatch_mmss timestring of
               Some (m, s) \<Rightarrow>
                 Some (of_int (decimal_value m) / 60 + of_int (decimal_value s) / 3600)
             | None \<Rightarrow>
                 if digits timestring then Some (of_int (decimal_value timestring) / 60)
                 else None))))"

subsection \<open>\<^verbatim>\<open>parse_mem_to_gigabytes\<close>\<close>

text \<open>
  \<^verbatim>\<open>str.lower\<close>, on the characters that the unit group can hold (ASCII letters).
\<close>

definition lower_char :: "char \<Rightarrow> char" where
  "lower_char c =
     (case map_of (zip ''ABCDEFGHIJKLMNOPQRSTUVWXYZ'' ''abcdefghijklmnopqrstuvwxyz'') c of
        None \<Rightarrow> c
      | Some l \<Rightarrow> l)"

definition lower :: "string \<Rightarrow> string" where
  "lower s = map lower_char s"

text \<open>
  The texts that \<^verbatim>\<open>(?i)([kmgt](?:i?b)?|)\<close> can capture, lower-cased: one of the four
  letters, optionally followed by \<^verbatim>\<open>b\<close> or \<^verbatim>\<open>ib\<close>, or nothing.
\<close>

definition unit_texts :: "string list" where
  "unit_texts = [[], ''k'', ''m'', ''g'', ''t'', ''kb'', ''mb'', ''gb'', ''tb'',
                 ''kib'', ''mib'', ''gib'', ''tib'']"

text \<open>
  \<^verbatim>\<open>re.fullmatch(r'(?i)\s*(\d+(?:\.\d+)?)\s*([kmgt](?:i?b)?|)\s*', memstring)\<close>, returning
  the two groups. Every piece is followed by a character outside its own class, so the
  greedy choice is the only one that can succeed: whitespace, the integer part, a fraction
  when a dot and a digit follow, whitespace, and then the rest without its trailing
  whitespace has to be a unit text.
\<close>

definition fullmatch_mem :: "string \<Rightarrow> (string \<times> string) option" where
  "fullmatch_mem s =
     (let s1 = dropWhile isspace s;
          ip = takeWhile isdecimal s1;
          r1 = dropWhile isdecimal s1;
          (number, r2) =
            (case r1 of
               [] \<Rightarrow> (ip, r1)
             | c # r \<Rightarrow>
                 if c = CHR ''.'' \<and> takeWhile isdecimal r \<noteq> []
                 then (ip @ [c] @ takeWhile isdecimal r, dropWhile isdecimal r)
                 else (ip, r1));
          unit = rev (dropWhile isspace (rev (dropWhile isspace r2)))
      in if ip \<noteq> [] \<and> lower unit \<in> set unit_texts then Some (number, unit) else None)"

definition BYTES_IN_KILOBYTE :: int where
  "BYTES_IN_KILOBYTE = 1024"

definition parse_mem_to_gigabytes :: "string option \<Rightarrow> error + real option" where
  "parse_mem_to_gigabytes memory_argument =
     (case memory_argument of
        None \<Rightarrow> Inr None
      | Some a \<Rightarrow>
          if a = [] then Inr None
          else
            (case fullmatch_mem (strip a) of
               None \<Rightarrow> Inr None
             | Some (number, unit_text) \<Rightarrow>
                 let unit = lower unit_text in
                 (case py_int number of
                    None \<Rightarrow> Inl (InvalidIntLiteral number)
                  | Some amount \<Rightarrow>
                      if unit = ''k'' \<or> unit = ''kb'' \<or> unit = ''gib''
                      then Inr (Some (py_round (of_int (amount * BYTES_IN_KILOBYTE ^ 1)
                                                / of_int (BYTES_IN_KILOBYTE ^ 3)) 4))
                      else if unit = ''m'' \<or> unit = ''mb'' \<or> unit = ''gib''
                      then Inr (Some (py_round (of_int (amount * BYTES_IN_KILOBYTE ^ 2)
                                                / of_int (BYTES_IN_KILOBYTE ^ 3)) 4))
                      else if unit = ''g'' \<or> unit = ''gb'' \<or> unit = ''gib''
                      then Inr (Some (py_round (of_int (amount * BYTES_IN_KILOBYTE ^ 3)
                                                / of_int (BYTES_IN_KILOBYTE ^ 3)) 4))
                      else if unit = ''t'' \<or> unit = ''tb'' \<or> unit = ''gib''
                      then Inr (Some (py_round (of_int (amount * BYTES_IN_KILOBYTE ^ 4)
                                                / of_int (BYTES_IN_KILOBYTE ^ 3)) 4))
                      else Inr None)))"

subsection \<open>\<^verbatim>\<open>parse_array_count\<close>\<close>

text \<open>
  The body of the loop for one non-empty part; \<open>None\<close> stands for an exception raised
  inside the \<^verbatim>\<open>try\<close> block (\<^verbatim>\<open>int\<close> on a malformed text, or unpacking one field into
  \<^verbatim>\<open>start_str, end_str\<close>).
\<close>

definition array_part_count :: "string \<Rightarrow> int option" where
  "array_part_count part0 =
     (case py_split1 (CHR ''%'') part0 of
        [] \<Rightarrow> None
      | part # _ \<Rightarrow>
          if CHR ''-'' \<in> set part then
            (case take 2 (py_split1 (CHR '':'') part @ [''1'']) of
               [rng, step_str] \<Rightarrow>
                 (case py_split1 (CHR ''-'') rng of
                    [start_str, end_str] \<Rightarrow>
                      (case py_int start_str of None \<Rightarrow> None | Some start \<Rightarrow>
                      (case py_int end_str of None \<Rightarrow> None | Some stop \<Rightarrow>
                      (case py_int step_str of None \<Rightarrow> None | Some step0 \<Rightarrow>
                         let step = (if step0 \<le> 0 then 1 else step0) in
                         if stop < start then Some 1
                         else Some ((stop - start) div step + 1))))
                  | _ \<Rightarrow> None)
             | _ \<Rightarrow> None)
          else (case py_int part of None \<Rightarrow> None | Some _ \<Rightarrow> Some 1))"

fun array_loop :: "string list \<Rightarrow> int \<Rightarrow> int option" where
  "array_loop [] total_count = Some total_count"
| "array_loop (p # ps) total_count =
     (let part = strip p in
      if part = [] then array_loop ps total_count
      else (case array_part_count part of
              None \<Rightarrow> None
            | Some n \<Rightarrow> array_loop ps (total_count + n)))"

definition parse_array_count :: "string option \<Rightarrow> int" where
  "parse_array_count array_spec =
     (case array_spec of
        None \<Rightarrow> 1
      | Some a \<Rightarrow>
          if a = [] then 1
          else (case array_loop (py_split (CHR '','') (strip a)) 0 of
                  None \<Rightarrow> 1
                | Some total_count \<Rightarrow> if total_count > 0 then total_count else 1))"

subsection \<open>\<^verbatim>\<open>parse_slurmargs\<close>\<close>

record resources =
  hours :: real
  cpus :: int
  memory_gb :: real
  array_count :: int

text \<open>The local variables \<^verbatim>\<open>ntasks\<close>, \<^verbatim>\<open>cpus_per_task\<close> and \<^verbatim>\<open>cpus\<close>.\<close>

definition resolve_ntasks :: "(string \<rightharpoonup> string) \<Rightarrow> int" where
  "resolve_ntasks slurmargs =
     (case parse_argument_to_int (slurmargs ''ntasks'') of
        Some ntasks \<Rightarrow> ntasks
      | None \<Rightarrow>
          (case parse_argument_to_int (slurmargs ''tasks-per-node'') of
             None \<Rightarrow> 1
           | Some tasks_per_node \<Rightarrow>
               (case parse_argument_to_int (slurmargs ''nodes'') of
                  None \<Rightarrow> 1
                | Some nodes \<Rightarrow> tasks_per_node * nodes)))"

definition resolve_cpus_per_task :: "(string \<rightharpoonup> string) \<Rightarrow> int" where
  "resolve_cpus_per_task slurmargs =
     (case parse_argument_to_int (slurmargs ''cpus-per-task'') of
        None \<Rightarrow> 1
      | Some cpus_per_task \<Rightarrow> cpus_per_task)"

definition resolve_cpus :: "(string \<rightharpoonup> string) \<Rightarrow> int" where
  "resolve_cpus slurmargs = resolve_ntasks slurmargs * resolve_cpus_per_task slurmargs"

definition parse_slurmargs :: "(string \<rightharpoonup> string) \<Rightarrow> error + resources" where
  "parse_slurmargs slurmargs =
     (let c = resolve_cpus slurmargs in
      case parse_time_to_hours (slurmargs ''time'') of
        None \<Rightarrow> Inl TimeUnspecified
      | Some h \<Rightarrow>
          (case parse_mem_to_gigabytes (slurmargs ''mem'') of
             Inl e \<Rightarrow> Inl e
           | Inr (Some memory_gigabytes) \<Rightarrow>
               Inr \<lparr>hours = h, cpus = c, memory_gb = memory_gigabytes,
                    array_count = parse_array_count (slurmargs ''array'')\<rparr>
           | Inr None \<Rightarrow>
               (case parse_mem_to_gigabytes (slurmargs ''mem-per-cpu'') of
                  Inl e \<Rightarrow> Inl e
                | Inr None \<Rightarrow> Inl MemoryUnspecified
                | Inr (Some mem_per_cpu_bytes) \<Rightarrow>
                    Inr \<lparr>hours = h, cpus = c, memory_gb = mem_per_cpu_bytes * of_int c,
                         array_count = parse_array_count (slurmargs ''array'')\<rparr>)))"

section \<open>Header extraction: \<^verbatim>\<open>extract_slurmheader_arguments\<close>\<close>

definition SLURMARG_CONVERSIONS :: "string \<rightharpoonup> string" where
  "SLURMARG_CONVERSIONS = map_of
     [(''c'', ''cpus-per-task''),
      (''n'', ''ntasks''),
      (''N'', ''nodes''),
      (''t'', ''time''),
      (''J'', ''job-name''),
      (''o'', ''output''),
      (''e'', ''error''),
      (''A'', ''account''),
      (''p'', ''partition''),
      (''m'', ''mail-type''),
      (''cpus-per-task'', ''cpus-per-task''),
      (''ntasks'', ''ntasks''),
      (''ntasks-per-node'', ''ntasks-per-node''),
      (''tasks-per-node'', ''ntasks-per-node''),
      (''nodes'', ''nodes''),
      (''time'', ''time''),
      (''time-min'', ''time-min''),
      (''job-name'', ''job-name''),
      (''output'', ''output''),
      (''error'', ''error''),
      (''account'', ''account''),
      (''partition'', ''partition''),
      (''nodelist'', ''nodelist''),
      (''qos'', ''qos''),
      (''mail-type'', ''mail-type''),
      (''mail-user'', ''mail-user''),
      (''mem'', ''mem''),
      (''mem-per-cpu'', ''mem-per-cpu''),
      (''array'', ''array'')]"

subsection \<open>One match of \<^verbatim>\<open>SLURMHEADER_PATTERN\<close>\<close>

text \<open>
  A match object is represented by its groups. The pattern sets exactly one of
  \<^verbatim>\<open>slurmarg_long\<close> and \<^verbatim>\<open>slurmarg_short\<close>, and exactly one of \<^verbatim>\<open>argvalue_eq\<close> and
  \<^verbatim>\<open>argvalue_sp\<close>, each to a non-empty text; the other one is \<^verbatim>\<open>None\<close>.
\<close>

datatype slurmarg_group = Slurmarg_long string | Slurmarg_short char

datatype argvalue_group = Argvalue_eq string | Argvalue_sp string

record header_match =
  slurmarg_of :: slurmarg_group
  argvalue_of :: argvalue_group

definition alpha :: "char \<Rightarrow> bool" where  \<comment> \<open>\<^verbatim>\<open>[A-Za-z]\<close>\<close>
  "alpha c \<longleftrightarrow> c \<in> set ''ABCDEFGHIJKLMNOPQRSTUVWXYZabcdefghijklmnopqrstuvwxyz''"

definition name_char :: "char \<Rightarrow> bool" where  \<comment> \<open>\<^verbatim>\<open>[A-Za-z0-9_-]\<close>\<close>
  "name_char c \<longleftrightarrow> alpha c \<or> c \<in> set ''0123456789_-''"

definition LF :: char where "LF = CHR 0x0A"
definition CR :: char where "CR = CHR 0x0D"

definition not_newline :: "char \<Rightarrow> bool" where  \<comment> \<open>\<^verbatim>\<open>[^\r\n]\<close>\<close>
  "not_newline c \<longleftrightarrow> c \<noteq> CR \<and> c \<noteq> LF"

text \<open>
  \<^verbatim>\<open>(?=[^\r\n]*\S)[^\r\n]+\<close> followed by \<^verbatim>\<open>$\<close> (with \<^verbatim>\<open>re.MULTILINE\<close>: the end of the text,
  or just before a line feed). The greedy run up to the next newline character is the only
  candidate: a shorter one is followed by a character of the run, where \<^verbatim>\<open>$\<close> fails. The
  look-ahead asks for a non-whitespace character in that run. Returns the value and the
  text after it.
\<close>

definition match_argvalue :: "string \<Rightarrow> (string \<times> string) option" where
  "match_argvalue s =
     (let v = takeWhile not_newline s; r = dropWhile not_newline s
      in if list_ex (\<lambda>c. \<not> isspace c) v \<and> (case r of [] \<Rightarrow> True | c # _ \<Rightarrow> c = LF)
         then Some (v, r) else None)"

text \<open>
  \<^verbatim>\<open>(?:--(?P<slurmarg_long>[A-Za-z0-9_-]+)|-(?P<slurmarg_short>[A-Za-z]))\<close>. After two
  dashes the short alternative cannot match, after one dash and a letter the long one
  cannot. The long name is the whole run of name characters, because what follows the
  name is \<^verbatim>\<open>=\<close> or whitespace, neither of which is a name character.
\<close>

definition match_slurmarg :: "string \<Rightarrow> (slurmarg_group \<times> string) option" where
  "match_slurmarg s =
     (case s of
        c1 # c2 # r \<Rightarrow>
          if c1 = CHR ''-'' \<and> c2 = CHR ''-'' then
            (if takeWhile name_char r = [] then None
             else Some (Slurmarg_long (takeWhile name_char r), dropWhile name_char r))
          else if c1 = CHR ''-'' \<and> alpha c2 then Some (Slurmarg_short c2, r)
          else None
      | _ \<Rightarrow> None)"

text \<open>
  The whole pattern, tried at a position where \<^verbatim>\<open>^\<close> holds:
  \<^verbatim>\<open>\s*\#SBATCH\s+\<close>, the option name, then \<^verbatim>\<open>=value\<close> or \<^verbatim>\<open>\s+value\<close>, then \<^verbatim>\<open>$\<close>.
  The whitespace runs are followed by a non-whitespace character of the pattern
  (\<^verbatim>\<open>#\<close>, \<^verbatim>\<open>-\<close>) or by a value whose run must hold a non-whitespace character before
  the next newline, so only the longest run can succeed; \<^verbatim>\<open>\s\<close> includes the newline
  characters. Returns the groups and the text after the match.
\<close>

definition match_header :: "string \<Rightarrow> (header_match \<times> string) option" where
  "match_header s =
     (let s1 = dropWhile isspace s in
      if take 7 s1 \<noteq> ''#SBATCH'' then None
      else
        let s2 = drop 7 s1 in
        if takeWhile isspace s2 = [] then None
        else
          (case match_slurmarg (dropWhile isspace s2) of
             None \<Rightarrow> None
           | Some (name, s3) \<Rightarrow>
               (case s3 of
                  [] \<Rightarrow> None
                | c # s4 \<Rightarrow>
                    if c = CHR ''='' then
                      (case match_argvalue s4 of
                         None \<Rightarrow> None
                       | Some (v, r) \<Rightarrow>
                           Some (\<lparr>slurmarg_of = name, argvalue_of = Argvalue_eq v\<rparr>, r))
                    else if isspace c then
                      (case match_argvalue (dropWhile isspace s4) of
                         None \<Rightarrow> None
                       | Some (v, r) \<Rightarrow>
                           Some (\<lparr>slurmarg_of = name, argvalue_of = Argvalue_sp v\<rparr>, r))
                    else None)))"

lemma match_argvalue_shorter:
  assumes "match_argvalue s = Some (v, r)"
  shows "length r < length s"
proof -
  from assms have v: "v = takeWhile not_newline s" and r: "r = dropWhile not_newline s"
    and ex: "list_ex (\<lambda>c. \<not> isspace c) v"
    by (simp_all add: match_argvalue_def Let_def split: if_splits)
  from ex have "v \<noteq> []" by auto
  moreover have "length v + length r = length s"
    unfolding v r by (metis length_append takeWhile_dropWhile_id)
  ultimately show ?thesis by (cases v) auto
qed

lemma match_slurmarg_shorter:
  assumes "match_slurmarg s = Some (n, r)"
  shows "length r \<le> length s"
proof (cases s)
  case Nil
  with assms show ?thesis by (simp add: match_slurmarg_def)
next
  case (Cons c1 t)
  show ?thesis
  proof (cases t)
    case Nil
    with Cons assms show ?thesis by (simp add: match_slurmarg_def)
  next
    case (Cons c2 u)
    with \<open>s = c1 # t\<close> assms have "r = dropWhile name_char u \<or> r = u"
      by (simp add: match_slurmarg_def split: if_splits)
    moreover have "length (dropWhile name_char u) \<le> length u"
      by (rule length_dropWhile_le)
    ultimately show ?thesis using Cons \<open>s = c1 # t\<close> by auto
  qed
qed

lemma match_header_shorter:
  assumes "match_header s = Some (m, r)"
  shows "length r < length s"
proof -
  let ?t = "dropWhile isspace (drop 7 (dropWhile isspace s))"
  have t: "length ?t \<le> length s"
    using length_dropWhile_le [of isspace "drop 7 (dropWhile isspace s)"]
          length_dropWhile_le [of isspace s] by simp
  from assms obtain name s3 where nm: "match_slurmarg ?t = Some (name, s3)"
    and rest: "(case s3 of
                  [] \<Rightarrow> None
                | c # s4 \<Rightarrow>
                    if c = CHR ''='' then
                      (case match_argvalue s4 of
                         None \<Rightarrow> None
                       | Some (v, r) \<Rightarrow>
                           Some (\<lparr>slurmarg_of = name, argvalue_of = Argvalue_eq v\<rparr>, r))
                    else if isspace c then
                      (case match_argvalue (dropWhile isspace s4) of
                         None \<Rightarrow> None
                       | Some (v, r) \<Rightarrow>
                           Some (\<lparr>slurmarg_of = name, argvalue_of = Argvalue_sp v\<rparr>, r))
                    else None) = Some (m, r)"
    by (simp add: match_header_def Let_def split: if_splits option.splits prod.splits)
  from nm have s3: "length s3 \<le> length ?t" by (rule match_slurmarg_shorter)
  from rest obtain c s4 where c: "s3 = c # s4" by (cases s3) simp_all
  have "length r < length s3"
  proof (cases "c = CHR ''=''")
    case True
    with rest c obtain v where "match_argvalue s4 = Some (v, r)"
      by (simp split: option.splits prod.splits)
    then have "length r < length s4" by (rule match_argvalue_shorter)
    with c show ?thesis by simp
  next
    case False
    with rest c obtain v where "match_argvalue (dropWhile isspace s4) = Some (v, r)"
      by (simp split: option.splits prod.splits if_splits)
    then have "length r < length (dropWhile isspace s4)" by (rule match_argvalue_shorter)
    with length_dropWhile_le [of isspace s4] c show ?thesis by simp
  qed
  with s3 t show ?thesis by simp
qed

subsection \<open>\<^verbatim>\<open>SLURMHEADER_PATTERN.finditer\<close>\<close>

text \<open>
  \<^verbatim>\<open>finditer\<close> tries the pattern at every position from left to right and resumes after
  each match (a match is never empty here). With \<^verbatim>\<open>re.MULTILINE\<close>, \<^verbatim>\<open>^\<close> holds at the
  start of the text and right after each line feed: the flag \<open>bol\<close> says whether it holds
  at the start of the remaining text.
\<close>

function finditer :: "bool \<Rightarrow> string \<Rightarrow> header_match list" where
  "finditer bol [] = []"
| "finditer bol (c # cs) =
     (if bol then
        (case match_header (c # cs) of
           Some (m, r) \<Rightarrow> m # finditer False r
         | None \<Rightarrow> finditer (c = LF) cs)
      else finditer (c = LF) cs)"
  by pat_completeness auto
termination
  by (relation "measure (\<lambda>(bol, s). length s)") (auto dest: match_header_shorter)

subsection \<open>The loop over the matches\<close>

text \<open>
  \<^verbatim>\<open>line.group('slurmarg_long') or line.group('slurmarg_short')\<close> and
  \<^verbatim>\<open>line.group('argvalue_eq') or line.group('argvalue_sp')\<close>: the group that is set.
\<close>

fun slurmarg_text :: "slurmarg_group \<Rightarrow> string" where
  "slurmarg_text (Slurmarg_long n) = n"
| "slurmarg_text (Slurmarg_short c) = [c]"

fun argvalue_text :: "argvalue_group \<Rightarrow> string" where
  "argvalue_text (Argvalue_eq v) = v"
| "argvalue_text (Argvalue_sp v) = v"

definition argvalue_is_quoted :: "string \<Rightarrow> bool" where
  "argvalue_is_quoted argvalue \<longleftrightarrow>
     length argvalue \<ge> 2 \<and> hd argvalue = last argvalue \<and> hd argvalue \<in> set [CHR 0x27, CHR 0x22]"

fun header_loop :: "header_match list \<Rightarrow> (string \<rightharpoonup> string) \<Rightarrow> error + (string \<rightharpoonup> string)" where
  "header_loop [] slurmargs = Inr slurmargs"
| "header_loop (line # headerlines) slurmargs =
     (let slurmarg0 = slurmarg_text (slurmarg_of line);
          slurmarg = (case SLURMARG_CONVERSIONS slurmarg0 of None \<Rightarrow> slurmarg0 | Some k \<Rightarrow> k);
          argvalue = strip (argvalue_text (argvalue_of line))
      in if CHR ''#'' \<in> set argvalue then Inl (IllegalHash slurmarg argvalue)
         else
           let argvalue' = (if argvalue_is_quoted argvalue then strip (butlast (tl argvalue))
                            else argvalue)
           in header_loop headerlines (slurmargs(slurmarg \<mapsto> argvalue')))"

text \<open>
  The function itself, on the text of the script (\<^verbatim>\<open>open(slurmscript_path, "r").read()\<close>).
\<close>

definition extract_slurmheader_arguments :: "string \<Rightarrow> error + (string \<rightharpoonup> string)" where
  "extract_slurmheader_arguments scriptlines = header_loop (finditer True scriptlines) Map.empty"

section \<open>Cost model: \<^verbatim>\<open>calculate_sbatch_jobcost_per_queue\<close>\<close>

datatype queue = Normal | Bigmem | Hugemem

definition NORMAL_QUEUE_MEMORY_FACTOR :: real where
  "NORMAL_QUEUE_MEMORY_FACTOR = 2577031 / 10000000"

definition BIGMEM_QUEUE_MEMORY_FACTOR :: real where
  "BIGMEM_QUEUE_MEMORY_FACTOR = 1104972 / 10000000"

definition HUGEMEM_QUEUE_MEMORY_FACTOR :: real where
  "HUGEMEM_QUEUE_MEMORY_FACTOR = 1059603 / 100000000"

definition calculate_cpu_hours :: "real \<Rightarrow> int \<Rightarrow> real" where
  "calculate_cpu_hours h c = of_int c * h"

definition calculate_mem_hours :: "real \<Rightarrow> real \<Rightarrow> real \<Rightarrow> real" where
  "calculate_mem_hours h mem_gb queue_factor = mem_gb * h * queue_factor"

text \<open>
  The dictionaries \<^verbatim>\<open>'mem_hours'\<close> and \<^verbatim>\<open>'charged'\<close> have the three queue names as keys and
  are functions on \<open>queue\<close> here.
\<close>

record breakdown =
  cpu_hours :: real
  mem_hours :: "queue \<Rightarrow> real"
  charged :: "queue \<Rightarrow> real"

record jobcost =
  cost_hours :: real
  cost_cpus :: int
  cost_memory_gb :: real
  cost_array_count :: int
  per_task :: breakdown
  total :: breakdown

definition calculate_sbatch_jobcost_per_queue :: "resources \<Rightarrow> jobcost" where
  "calculate_sbatch_jobcost_per_queue parsed_slurmargs =
     (let h = hours parsed_slurmargs;
          c = cpus parsed_slurmargs;
          mem = memory_gb parsed_slurmargs;
          n = array_count parsed_slurmargs;
          per_task_cpu_hours = calculate_cpu_hours h c;
          per_task_mem_normal = calculate_mem_hours h mem NORMAL_QUEUE_MEMORY_FACTOR;
          per_task_mem_bigmem = calculate_mem_hours h mem BIGMEM_QUEUE_MEMORY_FACTOR;
          per_task_mem_hugemem = calculate_mem_hours h mem HUGEMEM_QUEUE_MEMORY_FACTOR;
          per_task_charged_normal = max per_task_cpu_hours per_task_mem_normal;
          per_task_charged_bigmem = max per_task_cpu_hours per_task_mem_bigmem;
          per_task_charged_hugemem = max per_task_cpu_hours per_task_mem_hugemem;
          total_cpu_hours = per_task_cpu_hours * of_int n;
          total_mem_normal = per_task_mem_normal * of_int n;
          total_mem_bigmem = per_task_mem_bigmem * of_int n;
          total_mem_hugemem = per_task_mem_hugemem * of_int n;
          total_charged_normal = per_task_charged_normal * of_int n;
          total_charged_bigmem = per_task_charged_bigmem * of_int n;
          total_charged_hugemem = per_task_charged_hugemem * of_int n
      in \<lparr>cost_hours = h, cost_cpus = c, cost_memory_gb = mem, cost_array_count = n,
          per_task = \<lparr>cpu_hours = per_task_cpu_hours,
                      mem_hours = (\<lambda>q. case q of Normal \<Rightarrow> per_task_mem_normal
                                    | Bigmem \<Rightarrow> per_task_mem_bigmem
                                    | Hugemem \<Rightarrow> per_task_mem_hugemem),
                      charged = (\<lambda>q. case q of Normal \<Rightarrow> per_task_charged_normal
                                    | Bigmem \<Rightarrow> per_task_charged_bigmem
                                    | Hugemem \<Rightarrow> per_task_charged_hugemem)\<rparr>,
          total = \<lparr>cpu_hours = total_cpu_hours,
                   mem_hours = (\<lambda>q. case q of Normal \<Rightarrow> total_mem_normal
                                 | Bigmem \<Rightarrow> total_mem_bigmem
                                 | Hugemem \<Rightarrow> total_mem_hugemem),
                   charged = (\<lambda>q. case q of Normal \<Rightarrow> total_charged_normal
                                 | Bigmem \<Rightarrow> total_charged_bigmem
                                 | Hugemem \<Rightarrow> total_charged_hugemem)\<rparr>\<rparr>)"

text \<open>The main program up to the cost structure: extract, normalise, cost.\<close>

definition main_costs :: "string \<Rightarrow> error + jobcost" where
  "main_costs scriptlines =
     (case extract_slurmheader_arguments scriptlines of
        Inl e \<Rightarrow> Inl e
      | Inr slurmargs \<Rightarrow>
          (case parse_slurmargs slurmargs of
             Inl e \<Rightarrow> Inl e
           | Inr parsed_slurmargs \<Rightarrow> Inr (calculate_sbatch_jobcost_per_queue parsed_slurmargs)))"

text \<open>
  The three constants as one table, to state properties for every queue at once.
\<close>

definition queue_factor :: "queue \<Rightarrow> real" where
  "queue_factor q =
     (case q of
        Normal \<Rightarrow> NORMAL_QUEUE_MEMORY_FACTOR
      | Bigmem \<Rightarrow> BIGMEM_QUEUE_MEMORY_FACTOR
      | Hugemem \<Rightarrow> HUGEMEM_QUEUE_MEMORY_FACTOR)"

section \<open>The array grammar of the specification\<close>

text \<open>
  These definitions follow the words of the specification, not the source; the parser
  \<^verbatim>\<open>parse_array_count\<close> above is compared with them. An item is a single index, a range
  \<^verbatim>\<open>start-end\<close>, or a range with a step \<^verbatim>\<open>start-end:step\<close>; each number is kept as its text.
  An item may carry a throttle suffix \<^verbatim>\<open>%N\<close>.
\<close>

datatype array_item = Single string | Range string string | Stepped string string string

text \<open>A step is written as digits, possibly after a minus sign.\<close>

definition signed_digits :: "string \<Rightarrow> bool" where
  "signed_digits c =
     (case c of [] \<Rightarrow> False | x # xs \<Rightarrow> if x = CHR ''-'' then digits xs else digits c)"

definition signed_value :: "string \<Rightarrow> int" where
  "signed_value c =
     (case c of
        [] \<Rightarrow> 0
      | x # xs \<Rightarrow> if x = CHR ''-'' then - decimal_value xs else decimal_value c)"

fun wf_item :: "array_item \<Rightarrow> bool" where
  "wf_item (Single n) = digits n"
| "wf_item (Range a b) = (digits a \<and> digits b)"
| "wf_item (Stepped a b c) = (digits a \<and> digits b \<and> signed_digits c)"

definition wf_throttled :: "array_item \<times> string option \<Rightarrow> bool" where
  "wf_throttled it =
     (wf_item (fst it) \<and> (case snd it of None \<Rightarrow> True | Some t \<Rightarrow> digits t))"

fun render_item :: "array_item \<Rightarrow> string" where
  "render_item (Single n) = n"
| "render_item (Range a b) = a @ ''-'' @ b"
| "render_item (Stepped a b c) = a @ ''-'' @ b @ '':'' @ c"

definition render_throttled :: "array_item \<times> string option \<Rightarrow> string" where
  "render_throttled it =
     render_item (fst it) @ (case snd it of None \<Rightarrow> [] | Some t \<Rightarrow> ''%'' @ t)"

fun join_comma :: "string list \<Rightarrow> string" where
  "join_comma [] = []"
| "join_comma [p] = p"
| "join_comma (p # q # ps) = p @ '','' @ join_comma (q # ps)"

definition render_spec :: "(array_item \<times> string option) list \<Rightarrow> string" where
  "render_spec items = join_comma (map render_throttled items)"

text \<open>
  The count of a range: \<open>floor((end - start) / step) + 1\<close> when \<open>end \<ge> start\<close>, with a
  non-positive step taken as 1, and exactly 1 when \<open>end < start\<close>.
\<close>

definition range_count :: "int \<Rightarrow> int \<Rightarrow> int \<Rightarrow> int" where
  "range_count start stop step =
     (if stop < start then 1
      else \<lfloor>(of_int (stop - start) :: real) / of_int (if step \<le> 0 then 1 else step)\<rfloor> + 1)"

fun item_count :: "array_item \<Rightarrow> int" where
  "item_count (Single n) = 1"
| "item_count (Range a b) = range_count (decimal_value a) (decimal_value b) 1"
| "item_count (Stepped a b c) =
     range_count (decimal_value a) (decimal_value b) (signed_value c)"

text \<open>The sum over the items; an empty specification counts as one task.\<close>

definition spec_array_count :: "(array_item \<times> string option) list \<Rightarrow> int" where
  "spec_array_count items =
     (if items = [] then 1 else sum_list (map (\<lambda>it. item_count (fst it)) items))"

section \<open>Conditions on a header, for the invariants of the resource record\<close>

text \<open>
  These two predicates are not in the source; they name the headers for which the
  invariants of the specification are stated below. A digit other than \<^verbatim>\<open>0\<close> in the time
  value; and the four CPU-layout directives that \<^verbatim>\<open>parse_slurmargs\<close> reads, none of which
  holds an integer below 1 (each is absent, not an integer, or positive).
\<close>

definition nonzero_digit :: "char \<Rightarrow> bool" where
  "nonzero_digit c \<longleftrightarrow> c \<in> set ''123456789''"

definition cpu_layout_keys :: "string list" where
  "cpu_layout_keys = [''ntasks'', ''tasks-per-node'', ''nodes'', ''cpus-per-task'']"

definition no_nonpositive_cpu_directive :: "(string \<rightharpoonup> string) \<Rightarrow> bool" where
  "no_nonpositive_cpu_directive slurmargs =
     list_all (\<lambda>k. case parse_argument_to_int (slurmargs k) of None \<Rightarrow> True | Some n \<Rightarrow> 1 \<le> n)
       cpu_layout_keys"

section \<open>Properties\<close>

subsection \<open>Strings and integer literals\<close>

lemma isdecimal_not_space: "isdecimal c \<Longrightarrow> \<not> isspace c"
  by (auto simp: isdecimal_def isspace_def)

lemma strip_id:
  assumes "s \<noteq> []" "\<not> isspace (hd s)" "\<not> isspace (last s)"
  shows "strip s = s"
proof -
  from assms have 1: "dropWhile isspace s = s" by (cases s) auto
  from assms have "rev s \<noteq> []" "\<not> isspace (hd (rev s))" by (auto simp: hd_rev)
  then have "dropWhile isspace (rev s) = rev s" by (cases "rev s") auto
  with 1 show ?thesis by (simp add: strip_def)
qed

lemma int_space_isspace: "int_space c \<Longrightarrow> isspace c"
  by (auto simp: int_space_def isspace_def)

lemma int_strip_id:
  assumes "s \<noteq> []" "\<not> isspace (hd s)" "\<not> isspace (last s)"
  shows "int_strip s = s"
proof -
  from assms have h: "\<not> int_space (hd s)" and l: "\<not> int_space (last s)"
    by (auto dest: int_space_isspace)
  from assms(1) h have 1: "dropWhile int_space s = s" by (cases s) auto
  from assms(1) l have "rev s \<noteq> []" "\<not> int_space (hd (rev s))" by (auto simp: hd_rev)
  then have "dropWhile int_space (rev s) = rev s" by (cases "rev s") auto
  with 1 show ?thesis by (simp add: int_strip_def)
qed

lemma int_body_digits: "digits ds \<Longrightarrow> int_body ds = Some ds"
proof (induction ds rule: int_body.induct)
  case 1
  then show ?case by (simp add: digits_def)
next
  case (2 c)
  then show ?case by (simp add: digits_def)
next
  case (3 c d cs)
  from "3.prems" have c: "isdecimal c" and d: "isdecimal d" and r: "digits (d # cs)"
    by (simp_all add: digits_def)
  from d have "d \<noteq> CHR ''_''" by (auto simp: isdecimal_def)
  with 3 c r show ?case by simp
qed

lemma py_int_digits: 
  assumes "digits ds" shows "py_int ds = Some (decimal_value ds)"
proof -
  from assms obtain c cs where ds: "ds = c # cs" by (cases ds) (auto simp: digits_def)
  from assms have all: "\<forall>x \<in> set ds. isdecimal x" by (simp add: digits_def list_all_iff)
  with ds have "isdecimal (hd ds)" "isdecimal (last ds)" by auto
  then have "int_strip ds = ds" using ds by (intro int_strip_id) (auto dest: isdecimal_not_space)
  moreover from all ds have "c \<noteq> CHR ''-''" "c \<noteq> CHR ''+''" by (auto simp: isdecimal_def)
  ultimately show ?thesis using int_body_digits [OF assms] ds by (simp add: py_int_def)
qed

lemma lower_char_cases:
  "lower_char x = CHR ''g'' \<Longrightarrow> x = CHR ''g'' \<or> x = CHR ''G''"
  "lower_char x = CHR ''i'' \<Longrightarrow> x = CHR ''i'' \<or> x = CHR ''I''"
  "lower_char x = CHR ''b'' \<Longrightarrow> x = CHR ''b'' \<or> x = CHR ''B''"
  by (auto simp: lower_char_def split: if_splits)

subsection \<open>The memory parser\<close>

lemma strip_unfold_id:
  assumes "s \<noteq> []" "\<not> isspace (hd s)" "\<not> isspace (last s)"
  shows "rev (dropWhile isspace (rev (dropWhile isspace s))) = s"
  using strip_id [OF assms] by (simp add: strip_def)

lemma span_digits:
  assumes "digits n" and "u = [] \<or> \<not> isdecimal (hd u)"
  shows "takeWhile isdecimal (n @ u) = n" and "dropWhile isdecimal (n @ u) = u"
proof -
  from assms(1) have all: "\<And>x. x \<in> set n \<Longrightarrow> isdecimal x"
    by (simp add: digits_def list_all_iff)
  from assms(2) have "takeWhile isdecimal u = []" and "dropWhile isdecimal u = u"
    by (cases u; simp)+
  with all show "takeWhile isdecimal (n @ u) = n" and "dropWhile isdecimal (n @ u) = u"
    by simp_all
qed

lemma digits_no_lead_space:
  assumes "digits n" shows "dropWhile isspace (n @ u) = n @ u"
proof -
  from assms obtain c cs where "n = c # cs" "isdecimal c"
    by (cases n) (auto simp: digits_def)
  then show ?thesis by (simp add: isdecimal_not_space)
qed

lemma fullmatch_mem_no_unit:
  assumes "digits n"
  shows "fullmatch_mem n = Some (n, [])"
proof -
  have 1: "dropWhile isspace n = n" using digits_no_lead_space [OF assms, of "[]"] by simp
  have 2: "takeWhile isdecimal n = n" "dropWhile isdecimal n = []"
    using span_digits [OF assms, of "[]"] by simp_all
  have "n \<noteq> []" using assms by (simp add: digits_def)
  then show ?thesis
    unfolding fullmatch_mem_def Let_def 1 2 by (simp add: unit_texts_def lower_def)
qed

lemma fullmatch_mem_unit:
  assumes "digits n" and "u \<noteq> []" and "\<not> isdecimal (hd u)" and "hd u \<noteq> CHR ''.''"
    and "\<not> isspace (hd u)" and "\<not> isspace (last u)" and "lower u \<in> set unit_texts"
  shows "fullmatch_mem (n @ u) = Some (n, u)"
proof -
  have 1: "dropWhile isspace (n @ u) = n @ u" by (rule digits_no_lead_space [OF assms(1)])
  have 2: "takeWhile isdecimal (n @ u) = n" "dropWhile isdecimal (n @ u) = u"
    using span_digits [OF assms(1), of u] assms(3) by simp_all
  have 3: "rev (dropWhile isspace (rev (dropWhile isspace u))) = u"
    using assms by (intro strip_unfold_id)
  from assms(2) obtain a r where u: "u = a # r" by (cases u) auto
  with assms(4) have a: "a \<noteq> CHR ''.''" by simp
  have "n \<noteq> []" using assms(1) by (simp add: digits_def)
  then show ?thesis
    unfolding fullmatch_mem_def Let_def 1 2 using 3 a assms(7) by (simp add: u)
qed

lemma strip_digits_unit:
  assumes "digits n" "u = [] \<or> \<not> isspace (last u)"
  shows "strip (n @ u) = n @ u"
proof -
  from assms(1) obtain c cs where n: "n = c # cs" "isdecimal c" "isdecimal (last n)"
    by (cases n) (auto simp: digits_def list_all_iff)
  then have "\<not> isspace (hd (n @ u))" by (simp add: isdecimal_not_space)
  moreover have "\<not> isspace (last (n @ u))"
    using assms(2) n by (cases "u = []") (auto simp: isdecimal_not_space)
  ultimately show ?thesis using n by (intro strip_id) auto
qed

lemma fullmatch_mem_empty: "fullmatch_mem [] = None"
  by (simp add: fullmatch_mem_def)

text \<open>
  Claim C1, as the code has it. A memory value whose number is a decimal integer and whose
  unit is \<^verbatim>\<open>gib\<close> in any letter case is dispatched to the first branch of
  \<^verbatim>\<open>parse_mem_to_gigabytes\<close>, the kilobyte one: the result is
  \<^verbatim>\<open>round(amount * 1024**1 / 1024**3, 4)\<close>, not the amount itself. This holds for every
  argument that the pattern splits into such a number and such a unit, whitespace
  included, and in particular for the number directly followed by the unit.
\<close>

theorem gib_suffix_uses_kilobyte_branch:
  assumes "digits n" and "lower u = ''gib''"
  shows "(fullmatch_mem (strip a) = Some (n, u) \<longrightarrow>
            parse_mem_to_gigabytes (Some a) =
              Inr (Some (py_round (of_int (decimal_value n * 1024 ^ 1) / of_int (1024 ^ 3)) 4))) \<and>
         parse_mem_to_gigabytes (Some (n @ u)) =
           Inr (Some (py_round (of_int (decimal_value n * 1024 ^ 1) / of_int (1024 ^ 3)) 4))"
proof -
  have general: "parse_mem_to_gigabytes (Some b) =
      Inr (Some (py_round (of_int (decimal_value n * 1024 ^ 1) / of_int (1024 ^ 3)) 4))"
    if fm: "fullmatch_mem (strip b) = Some (n, u)" for b
  proof -
    have "b \<noteq> []"
    proof
      assume "b = []"
      then have "fullmatch_mem (strip b) = None" by (simp add: strip_def fullmatch_mem_empty)
      with fm show False by simp
    qed
    then show ?thesis
      by (simp add: parse_mem_to_gigabytes_def fm assms(2) py_int_digits [OF assms(1)]
            BYTES_IN_KILOBYTE_def)
  qed
  from assms(2) obtain x y z where u: "u = [x, y, z]"
    and xyz: "lower_char x = CHR ''g''" "lower_char y = CHR ''i''" "lower_char z = CHR ''b''"
    by (auto simp: lower_def)
  from xyz have x: "x = CHR ''g'' \<or> x = CHR ''G''" and z: "z = CHR ''b'' \<or> z = CHR ''B''"
    by (auto dest: lower_char_cases)
  from x have x': "\<not> isdecimal x" "x \<noteq> CHR ''.''" "\<not> isspace x"
    by (auto simp: isdecimal_def isspace_def)
  from z have z': "\<not> isspace z" by (auto simp: isspace_def)
  have "fullmatch_mem (n @ u) = Some (n, u)"
    using assms x' z' by (intro fullmatch_mem_unit) (simp_all add: u unit_texts_def)
  moreover have "strip (n @ u) = n @ u"
    using assms(1) z' by (intro strip_digits_unit) (simp_all add: u)
  ultimately have "fullmatch_mem (strip (n @ u)) = Some (n, u)" by simp
  then have "parse_mem_to_gigabytes (Some (n @ u)) =
      Inr (Some (py_round (of_int (decimal_value n * 1024 ^ 1) / of_int (1024 ^ 3)) 4))"
    by (rule general)
  with general show ?thesis by blast
qed

text \<open>
  The theorem at \<^verbatim>\<open>" 16 gIb  "\<close> and at \<^verbatim>\<open>"16GiB"\<close>: the result is \<open>0\<close>, where the identity
  conversion of the third branch would have given \<open>16\<close>.
\<close>

theorem gib_suffix_uses_kilobyte_branch_witness:
  "digits ''16'' \<and> lower ''GiB'' = ''gib'' \<and>
   fullmatch_mem (strip '' 16 gIb  '') = Some (''16'', ''gIb'') \<and> lower ''gIb'' = ''gib'' \<and>
   parse_mem_to_gigabytes (Some '' 16 gIb  '') = Inr (Some 0) \<and>
   parse_mem_to_gigabytes (Some ''16GiB'') = Inr (Some 0) \<and>
   py_round (of_int (decimal_value ''16'' * 1024 ^ 3) / of_int (1024 ^ 3)) 4 = 16"
proof -
  have d: "digits ''16''" by (simp add: digits_def isdecimal_def)
  have l: "lower ''GiB'' = ''gib''" "lower ''gIb'' = ''gib''"
    by (simp_all add: lower_def lower_char_def)
  have fm: "fullmatch_mem (strip '' 16 gIb  '') = Some (''16'', ''gIb'')" by code_simp
  have v: "decimal_value ''16'' = 16" by (simp add: decimal_value_def digit_value_def)
  have "py_round (of_int (decimal_value ''16'' * 1024 ^ 1) / of_int (1024 ^ 3)) 4 = 0"
    by (simp add: v py_round_def Let_def)
  moreover have "py_round (of_int (decimal_value ''16'' * 1024 ^ 3) / of_int (1024 ^ 3)) 4 = 16"
    by (simp add: v py_round_def Let_def)
  ultimately show ?thesis
    using gib_suffix_uses_kilobyte_branch [OF d l(1), of "'' 16 gIb  ''"]
      gib_suffix_uses_kilobyte_branch [OF d l(2), of "'' 16 gIb  ''"] d l fm
    by simp
qed

text \<open>
  Claim C1 as written covers every value with the unit \<^verbatim>\<open>gib\<close>. The pattern also admits a
  fractional number, and on \<^verbatim>\<open>"1.5GiB"\<close> no branch is reached: \<^verbatim>\<open>int('1.5')\<close> raises before
  the dispatch.
\<close>

theorem gib_suffix_fraction_counterexample:
  "fullmatch_mem (strip ''1.5GiB'') = Some (''1.5'', ''GiB'') \<and> lower ''GiB'' = ''gib'' \<and>
   parse_mem_to_gigabytes (Some ''1.5GiB'') = Inl (InvalidIntLiteral ''1.5'')"
  by code_simp

text \<open>
  Claim C2 says that a decimal integer without a unit, such as \<^verbatim>\<open>"16000"\<close>, yields a value
  in GiB and not \<^verbatim>\<open>None\<close>. The pattern accepts the empty unit and the comment above it
  lists \<^verbatim>\<open>'16000'\<close> as accepted, but no branch of the dispatch tests for the empty unit:
  the function falls through to its final \<^verbatim>\<open>return None\<close> for every such value.
\<close>

theorem no_unit_returns_None:
  assumes "digits n"
  shows "parse_mem_to_gigabytes (Some n) = Inr None"
proof -
  have "strip n = n" using strip_digits_unit [OF assms, of "[]"] by simp
  moreover have "n \<noteq> []" using assms by (simp add: digits_def)
  ultimately show ?thesis
    by (simp add: parse_mem_to_gigabytes_def fullmatch_mem_no_unit [OF assms]
                  py_int_digits [OF assms] lower_def)
qed

theorem no_unit_returns_None_witness:
  "digits ''16000'' \<and> parse_mem_to_gigabytes (Some ''16000'') = Inr None"
proof -
  have d: "digits ''16000''" by (simp add: digits_def isdecimal_def)
  with no_unit_returns_None [OF d] show ?thesis by simp
qed

text \<open>
  Claim C10. Some memory value accepted by the pattern makes \<^verbatim>\<open>parse_mem_to_gigabytes\<close>
  raise: \<^verbatim>\<open>"1.5G"\<close> matches with the groups \<^verbatim>\<open>1.5\<close> and \<^verbatim>\<open>G\<close>, \<^verbatim>\<open>int('1.5')\<close> raises
  \<^verbatim>\<open>ValueError\<close>, and \<^verbatim>\<open>parse_slurmargs\<close> does not catch it.
\<close>

theorem fractional_memory_raises:
  "fullmatch_mem (strip ''1.5G'') = Some (''1.5'', ''G'') \<and>
   parse_mem_to_gigabytes (Some ''1.5G'') = Inl (InvalidIntLiteral ''1.5'') \<and>
   parse_slurmargs [''time'' \<mapsto> ''60'', ''mem'' \<mapsto> ''1.5G''] = Inl (InvalidIntLiteral ''1.5'')"
  by code_simp

subsection \<open>The cost model\<close>

text \<open>
  Claim C8. For every resource record and every queue: the CPU hours of a task are
  \<open>cpus \<times> hours\<close>, its memory hours are \<open>memory_gb \<times> hours \<times> factor\<close>, the charged cost is the
  larger of the two, and every entry of the total is the entry of the task times
  \<open>array_count\<close>; the factors are 0.2577031, 0.1104972 and 0.01059603; with 2 hours,
  4 CPUs and 10 GiB the queue \<^verbatim>\<open>normal\<close> charges \<open>max 8 5.154062 = 8\<close>.
\<close>

theorem cost_model_formulas:
  "cpu_hours (per_task (calculate_sbatch_jobcost_per_queue r)) = of_int (cpus r) * hours r \<and>
   mem_hours (per_task (calculate_sbatch_jobcost_per_queue r)) q
     = memory_gb r * hours r * queue_factor q \<and>
   charged (per_task (calculate_sbatch_jobcost_per_queue r)) q
     = max (cpu_hours (per_task (calculate_sbatch_jobcost_per_queue r)))
           (mem_hours (per_task (calculate_sbatch_jobcost_per_queue r)) q) \<and>
   cpu_hours (total (calculate_sbatch_jobcost_per_queue r))
     = cpu_hours (per_task (calculate_sbatch_jobcost_per_queue r)) * of_int (array_count r) \<and>
   mem_hours (total (calculate_sbatch_jobcost_per_queue r)) q
     = mem_hours (per_task (calculate_sbatch_jobcost_per_queue r)) q * of_int (array_count r) \<and>
   charged (total (calculate_sbatch_jobcost_per_queue r)) q
     = charged (per_task (calculate_sbatch_jobcost_per_queue r)) q * of_int (array_count r) \<and>
   queue_factor Normal = 0.2577031 \<and> queue_factor Bigmem = 0.1104972 \<and>
   queue_factor Hugemem = 0.01059603 \<and>
   cpu_hours (per_task (calculate_sbatch_jobcost_per_queue
      \<lparr>hours = 2, cpus = 4, memory_gb = 10, array_count = n\<rparr>)) = 8 \<and>
   mem_hours (per_task (calculate_sbatch_jobcost_per_queue
      \<lparr>hours = 2, cpus = 4, memory_gb = 10, array_count = n\<rparr>)) Normal = 5.154062 \<and>
   charged (per_task (calculate_sbatch_jobcost_per_queue
      \<lparr>hours = 2, cpus = 4, memory_gb = 10, array_count = n\<rparr>)) Normal = 8"
  by (cases q)
     (simp_all add: calculate_sbatch_jobcost_per_queue_def Let_def calculate_cpu_hours_def
        calculate_mem_hours_def queue_factor_def NORMAL_QUEUE_MEMORY_FACTOR_def
        BIGMEM_QUEUE_MEMORY_FACTOR_def HUGEMEM_QUEUE_MEMORY_FACTOR_def)

subsection \<open>The time parser\<close>

lemma py_split_no_sep: "c \<notin> set s \<Longrightarrow> py_split c s = [s]"
  by (induction s) auto

lemma py_split_append: "c \<notin> set a \<Longrightarrow> py_split c (a @ c # b) = a # py_split c b"
  by (induction a) auto

lemma digits_no_sep:
  assumes "digits d" and "\<not> isdecimal c"
  shows "c \<notin> set d"
  using assms by (auto simp: digits_def list_all_iff)

lemma digits12_digits: "digits12 s \<Longrightarrow> digits s"
  by (simp add: digits12_def)

lemma not_decimal_seps: "\<not> isdecimal (CHR ''-'')" "\<not> isdecimal (CHR '':'')"
  by (simp_all add: isdecimal_def)

lemma digits_ends:
  assumes "digits d"
  shows "d \<noteq> []" and "\<not> isspace (hd d)" and "\<not> isspace (last d)"
  using assms by (auto simp: digits_def list_all_iff isdecimal_not_space)

lemma strip_between_digits:
  assumes "digits a" and "digits b"
  shows "strip (a @ x @ b) = a @ x @ b"
proof -
  from digits_ends [OF assms(1)] digits_ends [OF assms(2)]
  have "a @ x @ b \<noteq> []" "\<not> isspace (hd (a @ x @ b))" "\<not> isspace (last (a @ x @ b))"
    by simp_all
  then show ?thesis by (rule strip_id)
qed

lemma fullmatch_dhhmmss_form:
  assumes "digits d" "digits12 h" "digits12 m" "digits12 s"
  shows "fullmatch_dhhmmss (d @ ''-'' @ h @ '':'' @ m @ '':'' @ s) = Some (d, h, m, s)"
proof -
  note nd = digits_no_sep [OF _ not_decimal_seps(1)] digits_no_sep [OF _ not_decimal_seps(2)]
  have colon: "py_split (CHR '':'') (h @ '':'' @ m @ '':'' @ s) = [h, m, s]"
    using assms by (simp add: py_split_append py_split_no_sep nd digits12_digits)
  have "CHR ''-'' \<notin> set (h @ '':'' @ m @ '':'' @ s)"
    using assms by (simp add: nd digits12_digits)
  then have "py_split (CHR ''-'') (d @ ''-'' @ h @ '':'' @ m @ '':'' @ s)
             = [d, h @ '':'' @ m @ '':'' @ s]"
    using assms(1) by (simp add: py_split_append py_split_no_sep nd)
  then show ?thesis using colon assms by (simp add: fullmatch_dhhmmss_def)
qed

lemma fullmatch_dhhmmss_no_dash:
  assumes "CHR ''-'' \<notin> set t"
  shows "fullmatch_dhhmmss t = None"
  using assms by (simp add: fullmatch_dhhmmss_def py_split_no_sep)

lemma fullmatch_hhmmss_form:
  assumes "digits h" "digits12 m" "digits12 s"
  shows "fullmatch_hhmmss (h @ '':'' @ m @ '':'' @ s) = Some (h, m, s)"
proof -
  note nd = digits_no_sep [OF _ not_decimal_seps(2)]
  have "py_split (CHR '':'') (h @ '':'' @ m @ '':'' @ s) = [h, m, s]"
    using assms by (simp add: py_split_append py_split_no_sep nd digits12_digits)
  then show ?thesis using assms by (simp add: fullmatch_hhmmss_def)
qed

lemma fullmatch_mmss_form:
  assumes "digits m" "digits12 s"
  shows "fullmatch_mmss (m @ '':'' @ s) = Some (m, s)"
    and "fullmatch_hhmmss (m @ '':'' @ s) = None"
proof -
  note nd = digits_no_sep [OF _ not_decimal_seps(2)]
  have "py_split (CHR '':'') (m @ '':'' @ s) = [m, s]"
    using assms by (simp add: py_split_append py_split_no_sep nd digits12_digits)
  then show "fullmatch_mmss (m @ '':'' @ s) = Some (m, s)"
    and "fullmatch_hhmmss (m @ '':'' @ s) = None"
    using assms by (simp_all add: fullmatch_mmss_def fullmatch_hhmmss_def)
qed

lemma fullmatch_no_colon:
  assumes "CHR '':'' \<notin> set t"
  shows "fullmatch_hhmmss t = None" and "fullmatch_mmss t = None"
  using assms by (simp_all add: fullmatch_hhmmss_def fullmatch_mmss_def py_split_no_sep)

text \<open>
  Claim C6, as the code has it. With \<open>d\<close> any non-empty digit string and \<open>h\<close>, \<open>m\<close>, \<open>s\<close>
  digit strings of one or two characters, \<^verbatim>\<open>parse_time_to_hours\<close> returns
  \<open>days \<times> 24 + hours + minutes / 60 + seconds / 3600\<close> on \<^verbatim>\<open>D-HH:MM:SS\<close>,
  \<open>hours + minutes / 60 + seconds / 3600\<close> on \<^verbatim>\<open>HH:MM:SS\<close>,
  \<open>minutes / 60 + seconds / 3600\<close> on \<^verbatim>\<open>MM:SS\<close> and \<open>minutes / 60\<close> on a bare integer,
  with no cap on any component. In particular \<^verbatim>\<open>"1-02:03:04"\<close> gives
  \<open>24 + 2 + 3/60 + 4/3600\<close> hours and \<^verbatim>\<open>"90"\<close> gives 1.5 hours.
\<close>

theorem parse_time_to_hours_forms:
  assumes "digits d" and "digits12 h" and "digits12 m" and "digits12 s"
  shows "parse_time_to_hours (Some (d @ ''-'' @ h @ '':'' @ m @ '':'' @ s))
           = Some (of_int (decimal_value d * 24 + decimal_value h)
                   + of_int (decimal_value m) / 60 + of_int (decimal_value s) / 3600) \<and>
         parse_time_to_hours (Some (d @ '':'' @ m @ '':'' @ s))
           = Some (of_int (decimal_value d)
                   + of_int (decimal_value m) / 60 + of_int (decimal_value s) / 3600) \<and>
         parse_time_to_hours (Some (d @ '':'' @ s))
           = Some (of_int (decimal_value d) / 60 + of_int (decimal_value s) / 3600) \<and>
         parse_time_to_hours (Some d) = Some (of_int (decimal_value d) / 60) \<and>
         parse_time_to_hours (Some ''1-02:03:04'') = Some (24 + 2 + 3 / 60 + 4 / 3600) \<and>
         parse_time_to_hours (Some ''90'') = Some (3 / 2)"
proof (intro conjI)
  note ds = digits12_digits [OF assms(4)]
  note nd = digits_no_sep [OF _ not_decimal_seps(1)] digits_no_sep [OF _ not_decimal_seps(2)]
  have ne: "d \<noteq> []" using assms(1) by (simp add: digits_def)
  show "parse_time_to_hours (Some (d @ ''-'' @ h @ '':'' @ m @ '':'' @ s))
           = Some (of_int (decimal_value d * 24 + decimal_value h)
                   + of_int (decimal_value m) / 60 + of_int (decimal_value s) / 3600)"
    using ne strip_between_digits [OF assms(1) ds, of "''-'' @ h @ '':'' @ m @ '':''"]
      fullmatch_dhhmmss_form [OF assms]
    by (simp add: parse_time_to_hours_def)
  have "CHR ''-'' \<notin> set (d @ '':'' @ m @ '':'' @ s)"
    using assms by (simp add: nd digits12_digits)
  then show "parse_time_to_hours (Some (d @ '':'' @ m @ '':'' @ s))
           = Some (of_int (decimal_value d)
                   + of_int (decimal_value m) / 60 + of_int (decimal_value s) / 3600)"
    using ne strip_between_digits [OF assms(1) ds, of "'':'' @ m @ '':''"]
      fullmatch_hhmmss_form [OF assms(1,3,4)]
    by (simp add: parse_time_to_hours_def fullmatch_dhhmmss_no_dash)
  have "CHR ''-'' \<notin> set (d @ '':'' @ s)"
    using assms by (simp add: nd digits12_digits)
  then show "parse_time_to_hours (Some (d @ '':'' @ s))
           = Some (of_int (decimal_value d) / 60 + of_int (decimal_value s) / 3600)"
    using ne strip_between_digits [OF assms(1) ds, of "'':''"]
      fullmatch_mmss_form [OF assms(1,4)]
    by (simp add: parse_time_to_hours_def fullmatch_dhhmmss_no_dash)
  have "strip d = d" using digits_ends [OF assms(1)] by (intro strip_id)
  then show "parse_time_to_hours (Some d) = Some (of_int (decimal_value d) / 60)"
    using ne assms(1)
    by (simp add: parse_time_to_hours_def fullmatch_dhhmmss_no_dash fullmatch_no_colon nd)
  show "parse_time_to_hours (Some ''1-02:03:04'') = Some (24 + 2 + 3 / 60 + 4 / 3600)"
    by (simp add: parse_time_to_hours_def fullmatch_dhhmmss_def strip_def isspace_def
          digits_def digits12_def isdecimal_def decimal_value_def digit_value_def)
  show "parse_time_to_hours (Some ''90'') = Some (3 / 2)"
    by (simp add: parse_time_to_hours_def fullmatch_dhhmmss_def fullmatch_hhmmss_def
          fullmatch_mmss_def strip_def isspace_def
          digits_def digits12_def isdecimal_def decimal_value_def digit_value_def)
qed

theorem parse_time_to_hours_forms_witness:
  "digits ''3'' \<and> digits12 ''07'' \<and> digits12 ''99'' \<and> digits12 ''5'' \<and>
   parse_time_to_hours (Some ''3-07:99:5'') = Some (3 * 24 + 7 + 99 / 60 + 5 / 3600) \<and>
   parse_time_to_hours (Some ''3:99:5'') = Some (3 + 99 / 60 + 5 / 3600) \<and>
   parse_time_to_hours (Some ''3:5'') = Some (3 / 60 + 5 / 3600) \<and>
   parse_time_to_hours (Some ''3'') = Some (3 / 60)"
proof -
  have d: "digits ''3''" "digits12 ''07''" "digits12 ''99''" "digits12 ''5''"
    by (simp_all add: digits_def digits12_def isdecimal_def)
  have v: "decimal_value ''3'' = 3" "decimal_value ''07'' = 7" "decimal_value ''99'' = 99"
    "decimal_value ''5'' = 5"
    by (simp_all add: decimal_value_def digit_value_def)
  show ?thesis using parse_time_to_hours_forms [OF d] d by (simp add: v)
qed

text \<open>
  Claim C6 as written gives \<open>26 + 2 + 3/60 + 4/3600\<close> hours for \<^verbatim>\<open>"1-02:03:04"\<close>; one day
  and two hours are 26 hours, not 28, and the function returns \<open>24 + 2 + 3/60 + 4/3600\<close>.
\<close>

theorem time_example_counterexample:
  "parse_time_to_hours (Some ''1-02:03:04'') \<noteq> Some (26 + 2 + 3 / 60 + 4 / 3600)"
  by (simp add: parse_time_to_hours_def fullmatch_dhhmmss_def strip_def isspace_def
        digits_def digits12_def isdecimal_def decimal_value_def digit_value_def)

subsection \<open>Header extraction\<close>

lemma set_dropWhile_keep:
  assumes "\<not> P x"
  shows "x \<in> set (dropWhile P xs) \<longleftrightarrow> x \<in> set xs"
  using assms by (induction xs) auto

lemma hash_in_strip: "CHR ''#'' \<in> set (strip v) \<longleftrightarrow> CHR ''#'' \<in> set v"
proof -
  have h: "\<not> isspace (CHR ''#'')" by (simp add: isspace_def)
  show ?thesis
    by (simp add: strip_def set_dropWhile_keep [of isspace "CHR ''#''", OF h])
qed

lemma header_loop_raises_iff:
  "(\<exists>k v. header_loop ls m = Inl (IllegalHash k v))
     \<longleftrightarrow> (\<exists>line \<in> set ls. CHR ''#'' \<in> set (argvalue_text (argvalue_of line)))"
  by (induction ls arbitrary: m) (simp_all add: Let_def hash_in_strip)

lemma header_loop_only_hash:
  "header_loop ls m = Inl e \<Longrightarrow> \<exists>k v. e = IllegalHash k v"
  by (induction ls arbitrary: m) (auto simp: Let_def split: if_splits)

lemma finditer_hash_example:
  "finditer True ''#SBATCH --time=60 # one hour\<newline>#SBATCH --mem=4G''
     = [\<lparr>slurmarg_of = Slurmarg_long ''time'', argvalue_of = Argvalue_eq ''60 # one hour''\<rparr>,
        \<lparr>slurmarg_of = Slurmarg_long ''mem'', argvalue_of = Argvalue_eq ''4G''\<rparr>]"
  by code_simp

lemma finditer_plain_example:
  "finditer True ''#SBATCH --time=60\<newline># a comment\<newline>#SBATCH --mem=4G''
     = [\<lparr>slurmarg_of = Slurmarg_long ''time'', argvalue_of = Argvalue_eq ''60''\<rparr>,
        \<lparr>slurmarg_of = Slurmarg_long ''mem'', argvalue_of = Argvalue_eq ''4G''\<rparr>]"
  by code_simp

text \<open>
  Claim C9. \<^verbatim>\<open>extract_slurmheader_arguments\<close> raises its \<^verbatim>\<open>ValueError\<close> exactly when the
  value of some matched directive contains \<^verbatim>\<open>#\<close>; when no matched value does, it returns
  the mapping; and it raises nothing else.
\<close>

theorem extraction_raises_iff_hash:
  "((\<exists>k v. extract_slurmheader_arguments text = Inl (IllegalHash k v))
      \<longleftrightarrow> (\<exists>line \<in> set (finditer True text).
             CHR ''#'' \<in> set (argvalue_text (argvalue_of line)))) \<and>
   ((\<forall>line \<in> set (finditer True text).
        CHR ''#'' \<notin> set (argvalue_text (argvalue_of line)))
      \<longrightarrow> (\<exists>slurmargs. extract_slurmheader_arguments text = Inr slurmargs)) \<and>
   (\<forall>e. extract_slurmheader_arguments text = Inl e \<longrightarrow> (\<exists>k v. e = IllegalHash k v))"
proof (intro conjI impI allI)
  show iff: "(\<exists>k v. extract_slurmheader_arguments text = Inl (IllegalHash k v))
      \<longleftrightarrow> (\<exists>line \<in> set (finditer True text).
             CHR ''#'' \<in> set (argvalue_text (argvalue_of line)))"
    unfolding extract_slurmheader_arguments_def by (rule header_loop_raises_iff)
  show "\<exists>k v. e = IllegalHash k v" if "extract_slurmheader_arguments text = Inl e" for e
    using that unfolding extract_slurmheader_arguments_def by (rule header_loop_only_hash)
  then have only: "\<exists>k v. extract_slurmheader_arguments text = Inl (IllegalHash k v)"
    if "extract_slurmheader_arguments text = Inl e" for e
    using that by blast
  show "\<exists>slurmargs. extract_slurmheader_arguments text = Inr slurmargs"
    if "\<forall>line \<in> set (finditer True text).
          CHR ''#'' \<notin> set (argvalue_text (argvalue_of line))"
  proof (cases "extract_slurmheader_arguments text")
    case (Inl e)
    with only iff that show ?thesis by blast
  next
    case (Inr m)
    then show ?thesis by blast
  qed
qed

theorem extraction_raises_iff_hash_witness:
  "(\<exists>line \<in> set (finditer True ''#SBATCH --time=60 # one hour\<newline>#SBATCH --mem=4G'').
       CHR ''#'' \<in> set (argvalue_text (argvalue_of line))) \<and>
   (\<exists>k v. extract_slurmheader_arguments ''#SBATCH --time=60 # one hour\<newline>#SBATCH --mem=4G''
            = Inl (IllegalHash k v)) \<and>
   list_all (\<lambda>line. CHR ''#'' \<notin> set (argvalue_text (argvalue_of line)))
     (finditer True ''#SBATCH --time=60\<newline># a comment\<newline>#SBATCH --mem=4G'') \<and>
   (\<exists>slurmargs. extract_slurmheader_arguments
       ''#SBATCH --time=60\<newline># a comment\<newline>#SBATCH --mem=4G'' = Inr slurmargs)"
proof -
  have a: "\<exists>line \<in> set (finditer True ''#SBATCH --time=60 # one hour\<newline>#SBATCH --mem=4G'').
       CHR ''#'' \<in> set (argvalue_text (argvalue_of line))"
    unfolding finditer_hash_example by simp
  have b: "\<forall>line \<in> set (finditer True ''#SBATCH --time=60\<newline># a comment\<newline>#SBATCH --mem=4G'').
       CHR ''#'' \<notin> set (argvalue_text (argvalue_of line))"
    unfolding finditer_plain_example by simp
  from a b
    extraction_raises_iff_hash [of "''#SBATCH --time=60 # one hour\<newline>#SBATCH --mem=4G''"]
    extraction_raises_iff_hash [of "''#SBATCH --time=60\<newline># a comment\<newline>#SBATCH --mem=4G''"]
  show ?thesis unfolding list_all_iff by blast
qed

subsection \<open>Extraction followed by normalisation\<close>

lemma converted_name_not_tasks_per_node:
  "(case SLURMARG_CONVERSIONS x of None \<Rightarrow> x | Some k \<Rightarrow> k) \<noteq> ''tasks-per-node''"
  by (simp add: SLURMARG_CONVERSIONS_def)

lemma header_loop_no_tasks_per_node:
  assumes "header_loop ls m0 = Inr m" and "m0 ''tasks-per-node'' = None"
  shows "m ''tasks-per-node'' = None"
  using assms
proof (induction ls arbitrary: m0)
  case Nil
  then show ?case by simp
next
  case (Cons line ls)
  let ?k = "case SLURMARG_CONVERSIONS (slurmarg_text (slurmarg_of line)) of
              None \<Rightarrow> slurmarg_text (slurmarg_of line) | Some k \<Rightarrow> k"
  from Cons.prems(1) obtain v where "header_loop ls (m0(?k \<mapsto> v)) = Inr m"
    by (auto simp: Let_def split: if_splits)
  moreover have "(m0(?k \<mapsto> v)) ''tasks-per-node'' = None"
    using Cons.prems(2) converted_name_not_tasks_per_node [of "slurmarg_text (slurmarg_of line)"]
    by (simp del: fun_upd_apply add: fun_upd_other)
  ultimately show ?case by (rule Cons.IH)
qed

lemma finditer_layout_example:
  "finditer True ''#SBATCH --time=01:00:00\<newline>#SBATCH --mem=4G\<newline>#SBATCH --tasks-per-node=4\<newline>#SBATCH --nodes=3\<newline>''
     = [\<lparr>slurmarg_of = Slurmarg_long ''time'', argvalue_of = Argvalue_eq ''01:00:00''\<rparr>,
        \<lparr>slurmarg_of = Slurmarg_long ''mem'', argvalue_of = Argvalue_eq ''4G''\<rparr>,
        \<lparr>slurmarg_of = Slurmarg_long ''tasks-per-node'', argvalue_of = Argvalue_eq ''4''\<rparr>,
        \<lparr>slurmarg_of = Slurmarg_long ''nodes'', argvalue_of = Argvalue_eq ''3''\<rparr>]"
  by code_simp

lemma extract_layout_example:
  "extract_slurmheader_arguments ''#SBATCH --time=01:00:00\<newline>#SBATCH --mem=4G\<newline>#SBATCH --tasks-per-node=4\<newline>#SBATCH --nodes=3\<newline>''
     = Inr [''time'' \<mapsto> ''01:00:00'', ''mem'' \<mapsto> ''4G'', ''ntasks-per-node'' \<mapsto> ''4'',
            ''nodes'' \<mapsto> ''3'']"
  unfolding extract_slurmheader_arguments_def finditer_layout_example
  by (simp add: Let_def SLURMARG_CONVERSIONS_def strip_def isspace_def argvalue_is_quoted_def)

text \<open>
  Claim C3 says that a script declaring \<^verbatim>\<open>tasks-per-node=4\<close> and \<^verbatim>\<open>nodes=3\<close> without
  \<^verbatim>\<open>ntasks\<close> gets \<open>ntasks = 12\<close>. \<^verbatim>\<open>parse_slurmargs\<close> reads the key \<^verbatim>\<open>tasks-per-node\<close>,
  but \<^verbatim>\<open>SLURMARG_CONVERSIONS\<close> stores that option under \<^verbatim>\<open>ntasks-per-node\<close>: no extracted
  header has the key \<^verbatim>\<open>tasks-per-node\<close>, so after extraction the fallback is never taken
  and \<open>ntasks\<close> is the \<^verbatim>\<open>ntasks\<close> directive or 1.
\<close>

theorem extracted_header_has_no_tasks_per_node:
  assumes "extract_slurmheader_arguments text = Inr slurmargs"
  shows "slurmargs ''tasks-per-node'' = None \<and>
         resolve_ntasks slurmargs =
           (case parse_argument_to_int (slurmargs ''ntasks'') of None \<Rightarrow> 1 | Some n \<Rightarrow> n)"
proof -
  from assms have "slurmargs ''tasks-per-node'' = None"
    unfolding extract_slurmheader_arguments_def
    by (rule header_loop_no_tasks_per_node) simp
  then show ?thesis
    by (simp add: resolve_ntasks_def parse_argument_to_int_def split: option.splits)
qed

text \<open>
  At a script with the two directives: the header holds \<^verbatim>\<open>ntasks-per-node\<close>, \<open>ntasks\<close> and
  \<open>cpus\<close> are 1; on a map that does have the key \<^verbatim>\<open>tasks-per-node\<close> the fallback gives 12.
\<close>

theorem extracted_header_has_no_tasks_per_node_witness:
  "extract_slurmheader_arguments ''#SBATCH --time=01:00:00\<newline>#SBATCH --mem=4G\<newline>#SBATCH --tasks-per-node=4\<newline>#SBATCH --nodes=3\<newline>''
     = Inr [''time'' \<mapsto> ''01:00:00'', ''mem'' \<mapsto> ''4G'', ''ntasks-per-node'' \<mapsto> ''4'',
            ''nodes'' \<mapsto> ''3''] \<and>
   resolve_ntasks [''time'' \<mapsto> ''01:00:00'', ''mem'' \<mapsto> ''4G'', ''ntasks-per-node'' \<mapsto> ''4'',
                   ''nodes'' \<mapsto> ''3''] = 1 \<and>
   parse_slurmargs [''time'' \<mapsto> ''01:00:00'', ''mem'' \<mapsto> ''4G'', ''ntasks-per-node'' \<mapsto> ''4'',
                    ''nodes'' \<mapsto> ''3'']
     = Inr \<lparr>hours = 1, cpus = 1, memory_gb = 4, array_count = 1\<rparr> \<and>
   resolve_ntasks [''tasks-per-node'' \<mapsto> ''4'', ''nodes'' \<mapsto> ''3''] = 12"
proof -
  have "resolve_ntasks [''tasks-per-node'' \<mapsto> ''4'', ''nodes'' \<mapsto> ''3''] = 12"
    by code_simp
  moreover
  have "parse_slurmargs [''time'' \<mapsto> ''01:00:00'', ''mem'' \<mapsto> ''4G'',
          ''ntasks-per-node'' \<mapsto> ''4'', ''nodes'' \<mapsto> ''3'']
        = Inr \<lparr>hours = 1, cpus = 1, memory_gb = 4, array_count = 1\<rparr>"
    by code_simp
  ultimately show ?thesis
    using extract_layout_example
    extracted_header_has_no_tasks_per_node [OF extract_layout_example]
    by (simp add: parse_argument_to_int_def)
qed

subsection \<open>Normalisation\<close>

lemma int_body_decimal: "int_body x = Some y \<Longrightarrow> list_all isdecimal y"
  by (induction x arbitrary: y rule: int_body.induct) (auto split: if_splits)

lemma digit_value_nonneg: "isdecimal c \<Longrightarrow> 0 \<le> digit_value c"
  by (auto simp: isdecimal_def digit_value_def)

lemma foldl_decimal_nonneg:
  "0 \<le> a \<Longrightarrow> list_all isdecimal y \<Longrightarrow> 0 \<le> foldl (\<lambda>a c. 10 * a + digit_value c) a y"
  by (induction y arbitrary: a) (auto simp: digit_value_nonneg)

lemma decimal_value_nonneg: "list_all isdecimal y \<Longrightarrow> 0 \<le> decimal_value y"
  unfolding decimal_value_def by (rule foldl_decimal_nonneg) simp

lemma digits_value_nonneg: "digits d \<Longrightarrow> 0 \<le> decimal_value d"
  by (simp add: digits_def decimal_value_nonneg)

lemma py_int_nonneg:
  assumes "py_int s = Some a" and "int_strip s = c # cs" and "c \<noteq> CHR ''-''"
  shows "0 \<le> a"
  using assms
  by (auto simp: py_int_def split: if_splits dest!: int_body_decimal decimal_value_nonneg)

lemma int_strip_keeps_head:
  assumes "s = c # t" and "\<not> int_space c"
  shows "\<exists>cs. int_strip s = c # cs"
proof -
  have 1: "dropWhile int_space s = s" using assms by simp
  have "\<exists>ys. dropWhile int_space (rev t @ [c]) = ys @ [c]"
  proof (cases "\<forall>x \<in> set (rev t). int_space x")
    case True
    have "dropWhile int_space (rev t @ [c]) = dropWhile int_space [c]"
      by (rule dropWhile_append2) (use True in auto)
    then have "dropWhile int_space (rev t @ [c]) = [] @ [c]" using assms(2) by simp
    then show ?thesis by blast
  next
    case False
    then obtain x where "x \<in> set (rev t)" "\<not> int_space x" by blast
    then have "dropWhile int_space (rev t @ [c]) = dropWhile int_space (rev t) @ [c]"
      by (rule dropWhile_append1)
    then show ?thesis by blast
  qed
  then obtain ys where "dropWhile int_space (rev s) = ys @ [c]" using assms(1) by auto
  then show ?thesis by (simp add: int_strip_def 1)
qed

lemma fullmatch_mem_number:
  assumes "fullmatch_mem s = Some (num, u)"
  shows "\<exists>c t. num = c # t \<and> isdecimal c"
proof -
  let ?ip = "takeWhile isdecimal (dropWhile isspace s)"
  from assms have ne: "?ip \<noteq> []" and num: "\<exists>rest. num = ?ip @ rest"
    by (auto simp: fullmatch_mem_def Let_def split: if_splits list.splits prod.splits)
  from ne obtain c t where ip: "?ip = c # t" by (cases ?ip) auto
  then have "c \<in> set ?ip" by simp
  then have "isdecimal c" by (rule set_takeWhileD [THEN conjunct2])
  with num ip show ?thesis by auto
qed

lemma py_round_nonneg:
  assumes "0 \<le> x"
  shows "0 \<le> py_round x nd"
proof -
  have "0 \<le> x * 10 ^ nd" using assms by simp
  then have "0 \<le> \<lfloor>x * 10 ^ nd\<rfloor>" by simp
  then show ?thesis by (simp add: py_round_def Let_def)
qed

lemma parse_mem_nonneg:
  assumes "parse_mem_to_gigabytes a = Inr (Some g)"
  shows "0 \<le> g"
proof -
  from assms obtain s num u amount where s: "a = Some s"
    and fm: "fullmatch_mem (strip s) = Some (num, u)"
    and am: "py_int num = Some amount"
    and g: "g \<in> (\<lambda>k. py_round (of_int (amount * BYTES_IN_KILOBYTE ^ k)
                              / of_int (BYTES_IN_KILOBYTE ^ 3)) 4) ` {1, 2, 3, 4}"
    by (auto simp: parse_mem_to_gigabytes_def Let_def
             split: option.splits if_splits prod.splits)
  from fullmatch_mem_number [OF fm] obtain c t where num: "num = c # t" and c: "isdecimal c"
    by blast
  from c have "\<not> int_space c" by (auto dest: isdecimal_not_space int_space_isspace)
  from int_strip_keeps_head [OF num this] obtain cs where "int_strip num = c # cs" ..
  moreover from c have "c \<noteq> CHR ''-''" by (auto simp: isdecimal_def)
  ultimately have "0 \<le> amount" using am by (intro py_int_nonneg)
  then have "0 \<le> py_round (of_int (amount * BYTES_IN_KILOBYTE ^ k)
                           / of_int (BYTES_IN_KILOBYTE ^ 3)) 4" for k
    by (intro py_round_nonneg) (simp add: BYTES_IN_KILOBYTE_def)
  with g show ?thesis by blast
qed

lemma fullmatch_time_digits:
  "fullmatch_dhhmmss t = Some (d, h, m, s) \<Longrightarrow> digits d \<and> digits h \<and> digits m \<and> digits s"
  "fullmatch_hhmmss t = Some (h, m, s) \<Longrightarrow> digits h \<and> digits m \<and> digits s"
  "fullmatch_mmss t = Some (m, s) \<Longrightarrow> digits m \<and> digits s"
  by (auto simp: fullmatch_dhhmmss_def fullmatch_hhmmss_def fullmatch_mmss_def digits12_def
           split: list.splits if_splits)

lemma parse_time_nonneg:
  assumes "parse_time_to_hours a = Some h"
  shows "0 \<le> h"
proof -
  from assms obtain t where a: "a = Some t" "t \<noteq> []"
    by (auto simp: parse_time_to_hours_def split: option.splits if_splits)
  show ?thesis
  proof (cases "fullmatch_dhhmmss (strip t)")
    case (Some q)
    then obtain d hh m s where q: "fullmatch_dhhmmss (strip t) = Some (d, hh, m, s)"
      by (cases q) auto
    from fullmatch_time_digits(1) [OF q] assms a q show ?thesis
      by (auto simp: parse_time_to_hours_def dest!: digits_value_nonneg)
  next
    case n1: None
    show ?thesis
    proof (cases "fullmatch_hhmmss (strip t)")
      case (Some q)
      then obtain hh m s where q: "fullmatch_hhmmss (strip t) = Some (hh, m, s)"
        by (cases q) auto
      from fullmatch_time_digits(2) [OF q] assms a q n1 show ?thesis
        by (auto simp: parse_time_to_hours_def dest!: digits_value_nonneg)
    next
      case n2: None
      show ?thesis
      proof (cases "fullmatch_mmss (strip t)")
        case (Some q)
        then obtain m s where q: "fullmatch_mmss (strip t) = Some (m, s)"
          by (cases q) auto
        from fullmatch_time_digits(3) [OF q] assms a q n1 n2 show ?thesis
          by (auto simp: parse_time_to_hours_def dest!: digits_value_nonneg)
      next
        case None
        with assms a n1 n2 show ?thesis
          by (auto simp: parse_time_to_hours_def Let_def split: if_splits
                   dest!: digits_value_nonneg)
      qed
    qed
  qed
qed

lemma parse_array_count_pos: "1 \<le> parse_array_count a"
  by (simp add: parse_array_count_def split: option.splits)

lemma py_split_covers:
  "x \<in> set s \<Longrightarrow> x \<noteq> c \<Longrightarrow> \<exists>f \<in> set (py_split c s). x \<in> set f"
proof (induction s)
  case Nil
  then show ?case by simp
next
  case (Cons y s)
  show ?case
  proof (cases "y = c")
    case True
    with Cons show ?thesis by auto
  next
    case False
    obtain f fs where sp: "py_split c s = f # fs"
      by (cases "py_split c s") (cases s; auto split: if_splits list.splits)+
    show ?thesis
    proof (cases "x = y")
      case True
      with False sp show ?thesis by simp
    next
      case n: False
      with Cons have "\<exists>g \<in> set (py_split c s). x \<in> set g" by simp
      with False sp show ?thesis by auto
    qed
  qed
qed

lemma in_strip_iff:
  assumes "\<not> isspace x"
  shows "x \<in> set (strip v) \<longleftrightarrow> x \<in> set v"
  by (simp add: strip_def set_dropWhile_keep [of isspace x, OF assms])

lemma nonzero_digit_props:
  assumes "nonzero_digit x"
  shows "isdecimal x" and "\<not> isspace x" and "x \<noteq> CHR ''-''" and "x \<noteq> CHR '':''"
    and "0 < digit_value x"
  using assms by (auto simp: nonzero_digit_def isdecimal_def isspace_def digit_value_def)

lemma foldl_decimal_pos:
  "0 \<le> a \<Longrightarrow> list_all isdecimal y \<Longrightarrow> 0 < a \<or> list_ex nonzero_digit y
     \<Longrightarrow> 0 < foldl (\<lambda>a c. 10 * a + digit_value c) a y"
proof (induction y arbitrary: a)
  case Nil
  then show ?case by simp
next
  case (Cons c y)
  from Cons.prems have c: "0 \<le> digit_value c" by (simp add: digit_value_nonneg)
  with Cons.prems(1) have nn: "0 \<le> 10 * a + digit_value c" by simp
  from Cons.prems(3) c Cons.prems(1)
  have "0 < 10 * a + digit_value c \<or> list_ex nonzero_digit y"
    using nonzero_digit_props(5) [of c] by auto
  with Cons.IH [OF nn] Cons.prems(2) show ?case by simp
qed

lemma digits_value_pos:
  assumes "digits d" and "x \<in> set d" and "nonzero_digit x"
  shows "0 < decimal_value d"
proof -
  from assms(2,3) have "list_ex nonzero_digit d" by (auto simp: list_ex_iff)
  with assms(1) show ?thesis
    unfolding decimal_value_def digits_def by (intro foldl_decimal_pos) simp_all
qed

lemma fullmatch_time_covers:
  assumes "x \<in> set t" and "x \<noteq> CHR ''-''" and "x \<noteq> CHR '':''"
  shows "fullmatch_dhhmmss t = Some (d, h, m, s)
           \<Longrightarrow> x \<in> set d \<or> x \<in> set h \<or> x \<in> set m \<or> x \<in> set s"
    and "fullmatch_hhmmss t = Some (h, m, s) \<Longrightarrow> x \<in> set h \<or> x \<in> set m \<or> x \<in> set s"
    and "fullmatch_mmss t = Some (m, s) \<Longrightarrow> x \<in> set m \<or> x \<in> set s"
proof -
  from py_split_covers [OF assms(1,2)]
  have dash: "\<exists>f \<in> set (py_split (CHR ''-'') t). x \<in> set f" .
  from py_split_covers [OF assms(1,3)]
  have colon: "\<exists>f \<in> set (py_split (CHR '':'') t). x \<in> set f" .
  show "x \<in> set d \<or> x \<in> set h \<or> x \<in> set m \<or> x \<in> set s"
    if "fullmatch_dhhmmss t = Some (d, h, m, s)"
  proof -
    from that obtain r where 1: "py_split (CHR ''-'') t = [d, r]"
      and 2: "py_split (CHR '':'') r = [h, m, s]"
      by (auto simp: fullmatch_dhhmmss_def split: list.splits if_splits)
    from dash 1 have "x \<in> set d \<or> x \<in> set r" by simp
    then show ?thesis
    proof
      assume "x \<in> set d"
      then show ?thesis by simp
    next
      assume "x \<in> set r"
      from py_split_covers [OF this assms(3)] 2 show ?thesis by simp
    qed
  qed
  show "x \<in> set h \<or> x \<in> set m \<or> x \<in> set s" if "fullmatch_hhmmss t = Some (h, m, s)"
  proof -
    from that have "py_split (CHR '':'') t = [h, m, s]"
      by (auto simp: fullmatch_hhmmss_def split: list.splits if_splits)
    with colon show ?thesis by simp
  qed
  show "x \<in> set m \<or> x \<in> set s" if "fullmatch_mmss t = Some (m, s)"
  proof -
    from that have "py_split (CHR '':'') t = [m, s]"
      by (auto simp: fullmatch_mmss_def split: list.splits if_splits)
    with colon show ?thesis by simp
  qed
qed

lemma hours_sum_pos:
  fixes a b c d :: int
  assumes "0 \<le> a" "0 \<le> b" "0 \<le> c" "0 \<le> d" and "0 < a \<or> 0 < b \<or> 0 < c \<or> 0 < d"
  shows "0 < (of_int (a * 24 + b) :: real) + of_int c / 60 + of_int d / 3600"
proof -
  have "(0::real) \<le> of_int a" "(0::real) \<le> of_int b" "(0::real) \<le> of_int c"
    "(0::real) \<le> of_int d"
    using assms(1-4) by simp_all
  moreover have "(0::real) < of_int a \<or> (0::real) < of_int b \<or> (0::real) < of_int c
    \<or> (0::real) < of_int d"
    using assms(5) by simp
  ultimately show ?thesis by (simp only: of_int_add of_int_mult of_int_numeral) linarith
qed

lemma parse_time_pos:
  assumes "parse_time_to_hours (Some t) = Some h" and "list_ex nonzero_digit t"
  shows "0 < h"
proof -
  from assms(2) obtain x where x: "x \<in> set t" "nonzero_digit x" by (auto simp: list_ex_iff)
  note xp = nonzero_digit_props [OF x(2)]
  let ?ts = "strip t"
  from x(1) xp(2) have xs: "x \<in> set ?ts" by (simp add: in_strip_iff)
  from assms(1) have ne: "t \<noteq> []"
    by (auto simp: parse_time_to_hours_def split: if_splits)
  note cov = fullmatch_time_covers [OF xs xp(3,4)]
  show ?thesis
  proof (cases "fullmatch_dhhmmss ?ts")
    case (Some q)
    then obtain d hh m s where q: "fullmatch_dhhmmss ?ts = Some (d, hh, m, s)"
      by (cases q) auto
    note dg = fullmatch_time_digits(1) [OF q]
    from cov(1) [OF q] dg x(2)
    have "0 < decimal_value d \<or> 0 < decimal_value hh \<or> 0 < decimal_value m
          \<or> 0 < decimal_value s"
      by (auto dest: digits_value_pos)
    with dg have "0 < (of_int (decimal_value d * 24 + decimal_value hh) :: real)
        + of_int (decimal_value m) / 60 + of_int (decimal_value s) / 3600"
      by (intro hours_sum_pos) (auto dest: digits_value_nonneg)
    with assms(1) ne q show ?thesis by (simp add: parse_time_to_hours_def)
  next
    case n1: None
    show ?thesis
    proof (cases "fullmatch_hhmmss ?ts")
      case (Some q)
      then obtain hh m s where q: "fullmatch_hhmmss ?ts = Some (hh, m, s)"
        by (cases q) auto
      note dg = fullmatch_time_digits(2) [OF q]
      from cov(2) [OF q] dg x(2)
      have "0 < (0::int) \<or> 0 < decimal_value hh \<or> 0 < decimal_value m \<or> 0 < decimal_value s"
        by (auto dest: digits_value_pos)
      with dg have "0 < (of_int (0 * 24 + decimal_value hh) :: real)
          + of_int (decimal_value m) / 60 + of_int (decimal_value s) / 3600"
        by (intro hours_sum_pos) (auto dest: digits_value_nonneg)
      with assms(1) ne q n1 show ?thesis by (simp add: parse_time_to_hours_def)
    next
      case n2: None
      show ?thesis
      proof (cases "fullmatch_mmss ?ts")
        case (Some q)
        then obtain m s where q: "fullmatch_mmss ?ts = Some (m, s)"
          by (cases q) auto
        note dg = fullmatch_time_digits(3) [OF q]
        from cov(3) [OF q] dg x(2)
        have "0 < (0::int) \<or> 0 < (0::int) \<or> 0 < decimal_value m \<or> 0 < decimal_value s"
          by (auto dest: digits_value_pos)
        with dg have "0 < (of_int (0 * 24 + 0) :: real)
            + of_int (decimal_value m) / 60 + of_int (decimal_value s) / 3600"
          by (intro hours_sum_pos) (auto dest: digits_value_nonneg)
        with assms(1) ne q n1 n2 show ?thesis by (simp add: parse_time_to_hours_def)
      next
        case None
        with assms(1) ne n1 n2 have d: "digits ?ts"
          and h: "h = of_int (decimal_value ?ts) / 60"
          by (auto simp: parse_time_to_hours_def Let_def split: if_splits)
        from digits_value_pos [OF d xs x(2)] h show ?thesis by simp
      qed
    qed
  qed
qed

lemma resolve_cpus_pos:
  assumes "no_nonpositive_cpu_directive slurmargs"
  shows "1 \<le> resolve_cpus slurmargs"
proof -
  from assms have k: "parse_argument_to_int (slurmargs k) = Some n \<Longrightarrow> 1 \<le> n"
    if "k \<in> set cpu_layout_keys" for k n
    using that by (auto simp: no_nonpositive_cpu_directive_def list_all_iff)
  have keys: "''ntasks'' \<in> set cpu_layout_keys" "''tasks-per-node'' \<in> set cpu_layout_keys"
    "''nodes'' \<in> set cpu_layout_keys" "''cpus-per-task'' \<in> set cpu_layout_keys"
    by (simp_all add: cpu_layout_keys_def)
  have prod: "1 \<le> a * b" if "1 \<le> a" "1 \<le> b" for a b :: int
  proof -
    from that have "1 * 1 \<le> a * b" by (intro mult_mono) simp_all
    then show ?thesis by simp
  qed
  have "1 \<le> resolve_ntasks slurmargs"
    unfolding resolve_ntasks_def
    by (auto split: option.splits intro!: prod dest: k [OF keys(1)] k [OF keys(2)] k [OF keys(3)])
  moreover have "1 \<le> resolve_cpus_per_task slurmargs"
    unfolding resolve_cpus_per_task_def
    by (auto split: option.splits dest: k [OF keys(4)])
  ultimately show ?thesis unfolding resolve_cpus_def by (rule prod)
qed

lemma resolve_cpus_default:
  assumes "list_all (\<lambda>k. slurmargs k = None) cpu_layout_keys"
  shows "resolve_cpus slurmargs = 1"
  using assms
  by (simp add: cpu_layout_keys_def resolve_cpus_def resolve_ntasks_def
        resolve_cpus_per_task_def parse_argument_to_int_def)

text \<open>
  Claim C4, as the code has it. When \<^verbatim>\<open>parse_slurmargs\<close> returns a record:
  \<open>array_count \<ge> 1\<close>; \<open>hours \<ge> 0\<close>, and \<open>hours > 0\<close> when the time value holds a digit other
  than \<^verbatim>\<open>0\<close>; when none of the directives \<^verbatim>\<open>ntasks\<close>, \<^verbatim>\<open>tasks-per-node\<close>, \<^verbatim>\<open>nodes\<close> and
  \<^verbatim>\<open>cpus-per-task\<close> holds an integer below 1, \<open>cpus \<ge> 1\<close> and \<open>memory_gb \<ge> 0\<close>; when the four
  are absent, \<open>cpus = 1\<close>; and in any case \<open>memory_gb \<ge> 0\<close> whenever \<open>cpus \<ge> 0\<close>.
\<close>

theorem parse_slurmargs_invariants:
  assumes "parse_slurmargs slurmargs = Inr r"
  shows "0 \<le> hours r \<and> 1 \<le> array_count r \<and>
         (\<forall>t. slurmargs ''time'' = Some t \<and> list_ex nonzero_digit t \<longrightarrow> 0 < hours r) \<and>
         (no_nonpositive_cpu_directive slurmargs \<longrightarrow> 1 \<le> cpus r \<and> 0 \<le> memory_gb r) \<and>
         (list_all (\<lambda>k. slurmargs k = None) cpu_layout_keys \<longrightarrow> cpus r = 1) \<and>
         (0 \<le> cpus r \<longrightarrow> 0 \<le> memory_gb r)"
proof -
  from assms obtain h where h: "parse_time_to_hours (slurmargs ''time'') = Some h"
    by (auto simp: parse_slurmargs_def Let_def split: option.splits)
  from assms h have hr: "hours r = h" and ar: "array_count r = parse_array_count (slurmargs ''array'')"
    and cr: "cpus r = resolve_cpus slurmargs"
    by (auto simp: parse_slurmargs_def Let_def split: option.splits sum.splits)
  from assms h have mem:
    "(\<exists>g. parse_mem_to_gigabytes (slurmargs ''mem'') = Inr (Some g) \<and> memory_gb r = g) \<or>
     (\<exists>g. parse_mem_to_gigabytes (slurmargs ''mem-per-cpu'') = Inr (Some g)
           \<and> memory_gb r = g * of_int (cpus r))"
    by (auto simp: parse_slurmargs_def Let_def split: option.splits sum.splits)
  have 1: "0 \<le> hours r" using parse_time_nonneg [OF h] hr by simp
  have 2: "1 \<le> array_count r" using parse_array_count_pos ar by simp
  have 3: "0 < hours r" if "slurmargs ''time'' = Some t \<and> list_ex nonzero_digit t" for t
    using that h hr parse_time_pos [of t h] by simp
  have 6: "0 \<le> memory_gb r" if "0 \<le> cpus r"
    using mem that by (auto dest!: parse_mem_nonneg)
  have 4: "1 \<le> cpus r \<and> 0 \<le> memory_gb r" if "no_nonpositive_cpu_directive slurmargs"
  proof -
    from resolve_cpus_pos [OF that] cr have "1 \<le> cpus r" by simp
    with 6 show ?thesis by simp
  qed
  have 5: "cpus r = 1" if "list_all (\<lambda>k. slurmargs k = None) cpu_layout_keys"
    using resolve_cpus_default [OF that] cr by simp
  from 1 2 3 4 5 6 show ?thesis by blast
qed

text \<open>
  The theorem at a header with \<^verbatim>\<open>ntasks=3\<close> and a per-CPU memory, and at a header without
  any CPU-layout directive.
\<close>

theorem parse_slurmargs_invariants_witness:
  "parse_slurmargs [''time'' \<mapsto> ''60'', ''mem-per-cpu'' \<mapsto> ''2G'', ''ntasks'' \<mapsto> ''3'']
     = Inr \<lparr>hours = 1, cpus = 3, memory_gb = 6, array_count = 1\<rparr> \<and>
   list_ex nonzero_digit ''60'' \<and>
   no_nonpositive_cpu_directive [''time'' \<mapsto> ''60'', ''mem-per-cpu'' \<mapsto> ''2G'', ''ntasks'' \<mapsto> ''3''] \<and>
   (0::real) < 1 \<and> (1::int) \<le> 1 \<and> (1::int) \<le> 3 \<and> (0::real) \<le> 6 \<and>
   parse_slurmargs [''time'' \<mapsto> ''1:30'', ''mem'' \<mapsto> ''8G'']
     = Inr \<lparr>hours = 1 / 40, cpus = 1, memory_gb = 8, array_count = 1\<rparr> \<and>
   list_all (\<lambda>k. [''time'' \<mapsto> ''1:30'', ''mem'' \<mapsto> ''8G''] k = None) cpu_layout_keys"
proof -
  have p: "parse_slurmargs [''time'' \<mapsto> ''60'', ''mem-per-cpu'' \<mapsto> ''2G'', ''ntasks'' \<mapsto> ''3'']
     = Inr \<lparr>hours = 1, cpus = 3, memory_gb = 6, array_count = 1\<rparr>"
    by code_simp
  have n: "list_ex nonzero_digit ''60''" by (simp add: nonzero_digit_def)
  have c: "no_nonpositive_cpu_directive
             [''time'' \<mapsto> ''60'', ''mem-per-cpu'' \<mapsto> ''2G'', ''ntasks'' \<mapsto> ''3'']"
    by code_simp
  have p2: "parse_slurmargs [''time'' \<mapsto> ''1:30'', ''mem'' \<mapsto> ''8G'']
     = Inr \<lparr>hours = 1 / 40, cpus = 1, memory_gb = 8, array_count = 1\<rparr>"
    by code_simp
  have a: "list_all (\<lambda>k. [''time'' \<mapsto> ''1:30'', ''mem'' \<mapsto> ''8G''] k = None) cpu_layout_keys"
    by (simp add: cpu_layout_keys_def)
  from parse_slurmargs_invariants [OF p] parse_slurmargs_invariants [OF p2] p n c p2 a
  show ?thesis by simp
qed

text \<open>
  Claim C4 as written promises \<open>hours > 0\<close>, \<open>cpus \<ge> 1\<close> and \<open>memory_gb \<ge> 0\<close> for every
  header. Nothing in \<^verbatim>\<open>parse_slurmargs\<close> checks a range: a time of \<^verbatim>\<open>0\<close> minutes and
  \<^verbatim>\<open>ntasks=-2\<close> with a per-CPU memory are accepted.
\<close>

theorem parse_slurmargs_invariants_counterexample:
  "parse_slurmargs [''time'' \<mapsto> ''0'', ''mem-per-cpu'' \<mapsto> ''1G'', ''ntasks'' \<mapsto> ''-2'']
     = Inr \<lparr>hours = 0, cpus = - 2, memory_gb = - 2, array_count = 1\<rparr> \<and>
   \<not> 0 < hours \<lparr>hours = 0, cpus = - 2, memory_gb = - 2, array_count = 1\<rparr> \<and>
   \<not> 1 \<le> cpus \<lparr>hours = 0, cpus = - 2, memory_gb = - 2, array_count = 1\<rparr> \<and>
   \<not> 0 \<le> memory_gb \<lparr>hours = 0, cpus = - 2, memory_gb = - 2, array_count = 1\<rparr>"
  by code_simp

text \<open>
  When \<^verbatim>\<open>parse_slurmargs\<close> raises: the time is missing or unparsable, or the memory parser
  raises on \<^verbatim>\<open>mem\<close>, or it returns \<^verbatim>\<open>None\<close> on \<^verbatim>\<open>mem\<close> and no value on \<^verbatim>\<open>mem-per-cpu\<close>.
  The array specification and the CPU layout play no part.
\<close>

lemma parse_slurmargs_raises_iff:
  "(\<exists>e. parse_slurmargs slurmargs = Inl e) \<longleftrightarrow>
     parse_time_to_hours (slurmargs ''time'') = None \<or>
     (\<exists>e. parse_mem_to_gigabytes (slurmargs ''mem'') = Inl e) \<or>
     (parse_mem_to_gigabytes (slurmargs ''mem'') = Inr None \<and>
      (\<forall>g. parse_mem_to_gigabytes (slurmargs ''mem-per-cpu'') \<noteq> Inr (Some g)))"
  by (auto simp: parse_slurmargs_def Let_def split: option.splits sum.splits)

text \<open>
  Claim C5 says that normalisation raises only when the time is missing or unparsable or
  when memory can be derived neither from \<^verbatim>\<open>mem\<close> nor from \<^verbatim>\<open>mem-per-cpu\<close>. With a valid
  time and a valid \<^verbatim>\<open>mem-per-cpu\<close>, from which the memory is derived when \<^verbatim>\<open>mem\<close> is absent,
  a \<^verbatim>\<open>mem\<close> value with a fractional amount makes \<^verbatim>\<open>int\<close> raise before the fallback is
  tried.
\<close>

theorem fractional_mem_blocks_fallback:
  "parse_time_to_hours (Some ''60'') = Some 1 \<and>
   parse_mem_to_gigabytes (Some ''1G'') = Inr (Some 1) \<and>
   parse_slurmargs [''time'' \<mapsto> ''60'', ''mem-per-cpu'' \<mapsto> ''1G'']
     = Inr \<lparr>hours = 1, cpus = 1, memory_gb = 1, array_count = 1\<rparr> \<and>
   parse_slurmargs [''time'' \<mapsto> ''60'', ''mem'' \<mapsto> ''1.5G'', ''mem-per-cpu'' \<mapsto> ''1G'']
     = Inl (InvalidIntLiteral ''1.5'')"
  by code_simp

subsection \<open>The array parser\<close>

lemma py_split1_none: "c \<notin> set s \<Longrightarrow> py_split1 c s = [s]"
  by simp

lemma py_split1_at:
  assumes "c \<notin> set a"
  shows "py_split1 c (a @ c # b) = [a, b]"
proof -
  from assms have "takeWhile (\<lambda>x. x \<noteq> c) (a @ c # b) = a"
    and "dropWhile (\<lambda>x. x \<noteq> c) (a @ c # b) = c # b"
    by (induction a) auto
  then show ?thesis by simp
qed

lemma not_decimal_marks:
  "\<not> isdecimal (CHR '','')" "\<not> isdecimal (CHR ''%'')" "\<not> isdecimal (CHR ''_'')"
  by (simp_all add: isdecimal_def)

lemma signed_digits_cases:
  assumes "signed_digits c"
  obtains "digits c" | c' where "c = CHR ''-'' # c'" "digits c'"
  using assms by (auto simp: signed_digits_def split: list.splits if_splits)

lemma signed_digits_no_mark:
  assumes "signed_digits c" and "\<not> isdecimal x" and "x \<noteq> CHR ''-''"
  shows "x \<notin> set c"
  using assms(1)
  by (rule signed_digits_cases) (use assms(2,3) in \<open>auto dest: digits_no_sep\<close>)

lemma signed_digits_ends:
  assumes "signed_digits c"
  shows "c \<noteq> []" and "\<not> isspace (hd c)" and "\<not> isspace (last c)"
  using assms
  by (rule signed_digits_cases; use digits_ends in \<open>auto simp: isspace_def\<close>)+

lemma py_int_signed:
  assumes "signed_digits c"
  shows "py_int c = Some (signed_value c)"
  using assms
proof (rule signed_digits_cases)
  assume d: "digits c"
  then obtain x xs where c: "c = x # xs" "isdecimal x"
    by (cases c) (auto simp: digits_def)
  then have "x \<noteq> CHR ''-''" by (auto simp: isdecimal_def)
  with c py_int_digits [OF d] show ?thesis by (simp add: signed_value_def)
next
  fix c' assume c: "c = CHR ''-'' # c'" and d: "digits c'"
  have "int_strip c = c"
    using signed_digits_ends [OF assms] by (intro int_strip_id)
  with c int_body_digits [OF d] show ?thesis by (simp add: py_int_def signed_value_def)
qed

lemma range_count_div:
  "range_count a b s = (if b < a then 1 else (b - a) div (if s \<le> 0 then 1 else s) + 1)"
  unfolding range_count_def floor_divide_of_int_eq by (rule refl)

lemma range_count_pos: "1 \<le> range_count a b s"
proof (cases "b < a")
  case True
  then show ?thesis by (simp add: range_count_div)
next
  case False
  then have "0 \<le> (b - a) div (if s \<le> 0 then 1 else s)"
    by (intro pos_imp_zdiv_nonneg_iff [THEN iffD2]) auto
  with False show ?thesis by (simp add: range_count_div)
qed

lemma item_count_pos: "1 \<le> item_count i"
  by (cases i) (simp_all add: range_count_pos)

lemma render_item_no_mark:
  assumes "wf_item i" and "\<not> isdecimal x" and "x \<noteq> CHR ''-''" and "x \<noteq> CHR '':''"
  shows "x \<notin> set (render_item i)"
  using assms by (cases i) (auto dest: digits_no_sep signed_digits_no_mark)

lemma render_item_ends:
  assumes "wf_item i"
  shows "render_item i \<noteq> []" and "\<not> isspace (hd (render_item i))"
    and "\<not> isspace (last (render_item i))"
  using assms by (cases i; use digits_ends signed_digits_ends in auto)+

lemma render_throttled_ends:
  assumes "wf_throttled it"
  shows "render_throttled it \<noteq> []" and "\<not> isspace (hd (render_throttled it))"
    and "\<not> isspace (last (render_throttled it))"
proof -
  from assms have w: "wf_item (fst it)" by (simp add: wf_throttled_def)
  note e = render_item_ends [OF w]
  from e(1) show "render_throttled it \<noteq> []" by (simp add: render_throttled_def)
  from e(1,2) show "\<not> isspace (hd (render_throttled it))" by (simp add: render_throttled_def)
  show "\<not> isspace (last (render_throttled it))"
  proof (cases "snd it")
    case None
    with e(3) show ?thesis by (simp add: render_throttled_def)
  next
    case (Some t)
    with assms have "digits t" by (simp add: wf_throttled_def)
    from digits_ends [OF this] Some show ?thesis by (simp add: render_throttled_def)
  qed
qed

lemma render_throttled_no_comma:
  assumes "wf_throttled it"
  shows "CHR '','' \<notin> set (render_throttled it)"
proof -
  from assms have w: "wf_item (fst it)" by (simp add: wf_throttled_def)
  have "CHR '','' \<notin> set (render_item (fst it))"
    by (rule render_item_no_mark [OF w]) (simp_all add: isdecimal_def)
  moreover have "CHR '','' \<notin> set t" if "snd it = Some t" for t
    using assms that by (auto simp: wf_throttled_def dest: digits_no_sep [OF _ not_decimal_marks(1)])
  ultimately show ?thesis by (auto simp: render_throttled_def split: option.splits)
qed

lemma split_percent:
  assumes "wf_throttled it"
  shows "\<exists>rest. py_split1 (CHR ''%'') (render_throttled it) = render_item (fst it) # rest"
proof -
  from assms have w: "wf_item (fst it)" by (simp add: wf_throttled_def)
  have n: "CHR ''%'' \<notin> set (render_item (fst it))"
    by (rule render_item_no_mark [OF w]) (simp_all add: isdecimal_def)
  show ?thesis
  proof (cases "snd it")
    case None
    with n show ?thesis by (simp add: render_throttled_def)
  next
    case (Some t)
    then have "render_throttled it = render_item (fst it) @ CHR ''%'' # t"
      by (simp add: render_throttled_def)
    with py_split1_at [OF n, of t] show ?thesis by simp
  qed
qed

lemma part_count_single:
  assumes "digits n"
  shows "(if CHR ''-'' \<in> set n then None
          else (case py_int n of None \<Rightarrow> None | Some _ \<Rightarrow> Some (1::int))) = Some 1"
  using digits_no_sep [OF assms not_decimal_seps(1)] py_int_digits [OF assms] by simp

lemma one_is_digits: "digits ''1''" "decimal_value ''1'' = 1"
  by (simp_all add: digits_def isdecimal_def decimal_value_def digit_value_def)

lemma array_part_count_item:
  assumes "wf_throttled it"
  shows "array_part_count (render_throttled it) = Some (item_count (fst it))"
proof -
  from assms have w: "wf_item (fst it)" by (simp add: wf_throttled_def)
  from split_percent [OF assms] obtain rest where
    sp: "py_split1 (CHR ''%'') (render_throttled it) = render_item (fst it) # rest" ..
  have body: "array_part_count (render_throttled it) =
    (let part = render_item (fst it) in
     if CHR ''-'' \<in> set part then
       (case take 2 (py_split1 (CHR '':'') part @ [''1'']) of
          [rng, step_str] \<Rightarrow>
            (case py_split1 (CHR ''-'') rng of
               [start_str, end_str] \<Rightarrow>
                 (case py_int start_str of None \<Rightarrow> None | Some start \<Rightarrow>
                 (case py_int end_str of None \<Rightarrow> None | Some stop \<Rightarrow>
                 (case py_int step_str of None \<Rightarrow> None | Some step0 \<Rightarrow>
                    let step = (if step0 \<le> 0 then 1 else step0) in
                    if stop < start then Some 1
                    else Some ((stop - start) div step + 1))))
             | _ \<Rightarrow> None)
        | _ \<Rightarrow> None)
     else (case py_int part of None \<Rightarrow> None | Some _ \<Rightarrow> Some 1))"
    unfolding array_part_count_def sp by (simp add: Let_def)
  show ?thesis
  proof (cases "fst it")
    case (Single n)
    with w have d: "digits n" by simp
    from digits_no_sep [OF d not_decimal_seps(1)] py_int_digits [OF d] Single
    show ?thesis unfolding body by simp
  next
    case (Range a b)
    with w have d: "digits a" "digits b" by simp_all
    note na = digits_no_sep [OF d(1) not_decimal_seps(1)]
    have nc: "CHR '':'' \<notin> set (a @ ''-'' @ b)"
      using digits_no_sep [OF d(1) not_decimal_seps(2)] digits_no_sep [OF d(2) not_decimal_seps(2)]
      by simp
    have s1: "py_split1 (CHR '':'') (a @ ''-'' @ b) = [a @ ''-'' @ b]"
      using nc by (rule py_split1_none)
    have s2: "py_split1 (CHR ''-'') (a @ ''-'' @ b) = [a, b]"
      using py_split1_at [OF na, of b] by simp
    have m: "CHR ''-'' \<in> set (a @ ''-'' @ b)" by simp
    show ?thesis
      unfolding body Range render_item.simps fst_conv Let_def s1
      using m s2 py_int_digits [OF d(1)] py_int_digits [OF d(2)] py_int_digits [OF one_is_digits(1)]
      by (simp add: one_is_digits(2) range_count_div del: py_split1.simps)
  next
    case (Stepped a b c)
    with w have d: "digits a" "digits b" and sc: "signed_digits c" by simp_all
    note na = digits_no_sep [OF d(1) not_decimal_seps(1)]
    have nc: "CHR '':'' \<notin> set (a @ ''-'' @ b)"
      using digits_no_sep [OF d(1) not_decimal_seps(2)] digits_no_sep [OF d(2) not_decimal_seps(2)]
      by simp
    have s1: "py_split1 (CHR '':'') (a @ ''-'' @ b @ '':'' @ c) = [a @ ''-'' @ b, c]"
      using py_split1_at [OF nc, of c] by simp
    have s2: "py_split1 (CHR ''-'') (a @ ''-'' @ b) = [a, b]"
      using py_split1_at [OF na, of b] by simp
    have m: "CHR ''-'' \<in> set (a @ ''-'' @ b @ '':'' @ c)" by simp
    show ?thesis
      unfolding body Stepped render_item.simps fst_conv Let_def s1
      using m s2 py_int_digits [OF d(1)] py_int_digits [OF d(2)] py_int_signed [OF sc]
      by (simp add: range_count_div del: py_split1.simps)
  qed
qed

lemma array_loop_items:
  assumes "\<forall>it \<in> set items. wf_throttled it"
  shows "array_loop (map render_throttled items) acc
           = Some (acc + sum_list (map (\<lambda>it. item_count (fst it)) items))"
  using assms
proof (induction items arbitrary: acc)
  case Nil
  then show ?case by simp
next
  case (Cons it items)
  then have w: "wf_throttled it" by simp
  have "strip (render_throttled it) = render_throttled it"
    using render_throttled_ends [OF w] by (rule strip_id)
  with render_throttled_ends(1) [OF w] array_part_count_item [OF w] Cons show ?case
    by (simp add: Let_def add.assoc)
qed

lemma py_split_join_comma:
  assumes "ps \<noteq> []" and "\<forall>p \<in> set ps. CHR '','' \<notin> set p"
  shows "py_split (CHR '','') (join_comma ps) = ps"
  using assms
proof (induction ps rule: join_comma.induct)
  case 1
  then show ?case by simp
next
  case (2 p)
  then show ?case by (simp add: py_split_no_sep)
next
  case (3 p q ps)
  then have "py_split (CHR '','') (join_comma (q # ps)) = q # ps" by simp
  moreover from 3 have "CHR '','' \<notin> set p" by simp
  ultimately show ?case using py_split_append [of "CHR '',''" p "join_comma (q # ps)"] by simp
qed

lemma join_comma_ends:
  assumes "ps \<noteq> []" and "\<forall>p \<in> set ps. p \<noteq> [] \<and> \<not> isspace (hd p) \<and> \<not> isspace (last p)"
  shows "join_comma ps \<noteq> [] \<and> \<not> isspace (hd (join_comma ps)) \<and> \<not> isspace (last (join_comma ps))"
  using assms by (induction ps rule: join_comma.induct) auto

lemma item_counts_nonneg: "0 \<le> sum_list (map (\<lambda>it. item_count (fst it)) items)"
proof (induction items)
  case Nil
  then show ?case by simp
next
  case (Cons it items)
  with item_count_pos [of "fst it"] show ?case by simp
qed

lemma item_counts_pos:
  assumes "items \<noteq> []"
  shows "0 < sum_list (map (\<lambda>it. item_count (fst it)) items)"
proof -
  from assms obtain it rest where "items = it # rest" by (cases items) auto
  with item_count_pos [of "fst it"] item_counts_nonneg [of rest] show ?thesis by simp
qed

text \<open>
  Claim C7. On the text of a list of well-formed items, separated by commas and each with
  or without a throttle suffix, \<^verbatim>\<open>parse_array_count\<close> returns the sum of the counts of the
  specification: 1 for a single index; for a range \<open>floor((end - start) / step) + 1\<close> when
  \<open>end \<ge> start\<close>, with a non-positive step taken as 1, and 1 when \<open>end < start\<close>; the
  throttle does not count. A missing or empty specification gives 1. In particular
  \<^verbatim>\<open>"0-99%10"\<close> gives 100 and \<^verbatim>\<open>"1,4-8,10-20:5%2"\<close> gives 9.
\<close>

theorem parse_array_count_sums_items:
  assumes "list_all wf_throttled items"
  shows "parse_array_count (Some (render_spec items)) = spec_array_count items \<and>
         parse_array_count None = 1 \<and> parse_array_count (Some []) = 1 \<and>
         parse_array_count (Some ''0-99%10'') = 100 \<and>
         parse_array_count (Some ''1,4-8,10-20:5%2'') = 9"
proof (intro conjI)
  from assms have wf: "\<forall>it \<in> set items. wf_throttled it" by (simp add: list_all_iff)
  show "parse_array_count (Some (render_spec items)) = spec_array_count items"
  proof (cases "items = []")
    case True
    then show ?thesis by (simp add: render_spec_def spec_array_count_def parse_array_count_def)
  next
    case False
    let ?ps = "map render_throttled items"
    have ne: "?ps \<noteq> []" using False by simp
    have ends: "\<forall>p \<in> set ?ps. p \<noteq> [] \<and> \<not> isspace (hd p) \<and> \<not> isspace (last p)"
      using wf render_throttled_ends by auto
    have nc: "\<forall>p \<in> set ?ps. CHR '','' \<notin> set p"
      using wf render_throttled_no_comma by auto
    from join_comma_ends [OF ne ends]
    have j: "join_comma ?ps \<noteq> []" and st: "strip (join_comma ?ps) = join_comma ?ps"
      by (simp_all add: strip_id)
    have sp: "py_split (CHR '','') (join_comma ?ps) = ?ps"
      by (rule py_split_join_comma [OF ne nc])
    show ?thesis
      using j item_counts_pos [OF False]
      by (simp add: parse_array_count_def render_spec_def st sp array_loop_items [OF wf]
            spec_array_count_def False)
  qed
  show "parse_array_count None = 1" by (simp add: parse_array_count_def)
  show "parse_array_count (Some []) = 1" by (simp add: parse_array_count_def)
  show "parse_array_count (Some ''0-99%10'') = 100" by code_simp
  show "parse_array_count (Some ''1,4-8,10-20:5%2'') = 9" by code_simp
qed

text \<open>
  The theorem at the items of \<^verbatim>\<open>"1,4-8,10-20:5%2"\<close>, and at a reversed range followed by a
  range with a negative step.
\<close>

theorem parse_array_count_sums_items_witness:
  "list_all wf_throttled
     [(Single ''1'', None), (Range ''4'' ''8'', None), (Stepped ''10'' ''20'' ''5'', Some ''2'')] \<and>
   render_spec
     [(Single ''1'', None), (Range ''4'' ''8'', None), (Stepped ''10'' ''20'' ''5'', Some ''2'')]
     = ''1,4-8,10-20:5%2'' \<and>
   spec_array_count
     [(Single ''1'', None), (Range ''4'' ''8'', None), (Stepped ''10'' ''20'' ''5'', Some ''2'')]
     = 1 + 5 + 3 \<and>
   parse_array_count (Some ''1,4-8,10-20:5%2'') = 9 \<and>
   list_all wf_throttled [(Range ''9'' ''2'', None), (Stepped ''0'' ''9'' ''-4'', None)] \<and>
   parse_array_count (Some ''9-2,0-9:-4'') = 1 + 10"
proof -
  have w: "list_all wf_throttled
     [(Single ''1'', None), (Range ''4'' ''8'', None), (Stepped ''10'' ''20'' ''5'', Some ''2'')]"
    by (simp add: wf_throttled_def signed_digits_def digits_def isdecimal_def)
  have w2: "list_all wf_throttled [(Range ''9'' ''2'', None), (Stepped ''0'' ''9'' ''-4'', None)]"
    by (simp add: wf_throttled_def signed_digits_def digits_def isdecimal_def)
  have r: "render_spec
     [(Single ''1'', None), (Range ''4'' ''8'', None), (Stepped ''10'' ''20'' ''5'', Some ''2'')]
     = ''1,4-8,10-20:5%2''"
    by (simp add: render_spec_def render_throttled_def)
  have r2: "render_spec [(Range ''9'' ''2'', None), (Stepped ''0'' ''9'' ''-4'', None)]
     = ''9-2,0-9:-4''"
    by (simp add: render_spec_def render_throttled_def)
  have c: "spec_array_count
     [(Single ''1'', None), (Range ''4'' ''8'', None), (Stepped ''10'' ''20'' ''5'', Some ''2'')]
     = 1 + 5 + 3"
    by (simp add: spec_array_count_def range_count_div signed_value_def decimal_value_def
          digit_value_def)
  have c2: "spec_array_count [(Range ''9'' ''2'', None), (Stepped ''0'' ''9'' ''-4'', None)]
     = 1 + 10"
    by (simp add: spec_array_count_def range_count_div signed_value_def decimal_value_def
          digit_value_def)
  from parse_array_count_sums_items [OF w] parse_array_count_sums_items [OF w2] w w2 r r2 c c2
  show ?thesis by simp
qed

end
